(* ===== verification/Fiveman_Prelude.thy ===== *)
theory Fiveman_Prelude
  imports Complex_Main "HOL-Library.Word" "HOL-Library.Signed_Division"
begin

text \<open>
  Shared vocabulary of the development: C integers and C strings, the decimal conversions of the
  C library the sources rely on (\<open>%i\<close>, \<open>atoi\<close>), the effect monad in which stateful C functions
  are written, and the walk over a linked table that all functions of
  \<open>fiveman_process_state_table.c\<close> have in common.
\<close>

named_theorems io_simps \<open>equations that run an effectful computation\<close>
named_theorems io_elims \<open>elimination rules for a computation that returned\<close>

section \<open>C integers\<close>

type_synonym u8 = "8 word"
type_synonym u32 = "32 word"
type_synonym u64 = "64 word"

text \<open>Conversion of a mathematical integer to a 32-bit \<open>int\<close> (two's complement).\<close>

definition int32 :: "int \<Rightarrow> int" where
  "int32 x = signed_take_bit 31 x"

lemma int32_id: "- (2 ^ 31) \<le> x \<Longrightarrow> x < 2 ^ 31 \<Longrightarrow> int32 x = x"
  unfolding int32_def by (rule signed_take_bit_int_eq_self) simp_all

text \<open>C division truncates towards zero; on non-negative operands it is \<open>div\<close>.\<close>

lemma sdiv_nonneg: "0 \<le> a \<Longrightarrow> 0 < b \<Longrightarrow> a sdiv b = a div (b::int)"
  by (simp add: signed_divide_int_def sgn_if)

lemma sdiv_ge_1_iff: "0 < b \<Longrightarrow> 1 \<le> a sdiv b \<longleftrightarrow> b \<le> (a::int)"
proof (cases "0 \<le> a")
  case True
  assume b: "0 < b"
  with True show ?thesis
    by (simp add: sdiv_nonneg int_one_le_iff_zero_less pos_imp_zdiv_pos_iff)
next
  case False
  assume b: "0 < b"
  with False have "a sdiv b \<le> 0"
    by (simp add: signed_divide_int_def sgn_if pos_imp_zdiv_nonneg_iff)
  with False b show ?thesis by simp
qed

section \<open>C strings\<close>

text \<open>
  A C string in a buffer is what precedes its first NUL byte. \<open>strncpy\<close> into a zeroed buffer of
  \<open>n + 1\<close> bytes leaves the string \<open>strncpy_text src n\<close> there; \<open>snprintf\<close> into a buffer of
  \<open>n\<close> bytes leaves \<open>snprintf_text n out\<close> and returns \<open>length out\<close>.
\<close>

definition cstr :: "string \<Rightarrow> string" where
  "cstr s = takeWhile (\<lambda>c. c \<noteq> CHR 0x00) s"

definition strncpy_text :: "string \<Rightarrow> nat \<Rightarrow> string" where
  "strncpy_text src n = cstr (take n src)"

definition snprintf_text :: "nat \<Rightarrow> string \<Rightarrow> string" where
  "snprintf_text n s = take (n - 1) s"

lemma cstr_id: "CHR 0x00 \<notin> set s \<Longrightarrow> cstr s = s"
  unfolding cstr_def by (auto simp: takeWhile_eq_all_conv)

lemma nul_notin_cstr [simp]: "CHR 0x00 \<notin> set (cstr s)"
  unfolding cstr_def by (auto dest: set_takeWhileD)

lemma cstr_append_nul: "CHR 0x00 \<notin> set s \<Longrightarrow> cstr (s @ CHR 0x00 # t) = s"
  unfolding cstr_def by (subst takeWhile_append2) auto

lemma snprintf_text_fits: "length s < n \<Longrightarrow> snprintf_text n s = s"
  by (simp add: snprintf_text_def)

lemma strncpy_snprintf:
  "CHR 0x00 \<notin> set s \<Longrightarrow> strncpy_text (snprintf_text n s) (length s) = take (n - 1) s"
  unfolding strncpy_text_def snprintf_text_def by (subst cstr_id) (auto dest: in_set_takeD simp: min_def)

subsection \<open>Decimal conversions\<close>

definition digit_char :: "nat \<Rightarrow> char" where
  "digit_char d = ''0123456789'' ! d"

fun dec_nat :: "nat \<Rightarrow> string" where
  "dec_nat n = (if n < 10 then [digit_char n] else dec_nat (n div 10) @ [digit_char (n mod 10)])"

declare dec_nat.simps [simp del]

text \<open>\<open>%i\<close>\<close>

definition dec_int :: "int \<Rightarrow> string" where
  "dec_int i = (if i < 0 then CHR ''-'' # dec_nat (nat (- i)) else dec_nat (nat i))"

definition digit_val :: "char \<Rightarrow> nat option" where
  "digit_val c = (let n = of_char c :: nat in if 48 \<le> n \<and> n \<le> 57 then Some (n - 48) else None)"

fun strtol_digits :: "nat \<Rightarrow> string \<Rightarrow> nat" where
  "strtol_digits acc [] = acc"
| "strtol_digits acc (c # cs) =
     (case digit_val c of None \<Rightarrow> acc | Some d \<Rightarrow> strtol_digits (10 * acc + d) cs)"

text \<open>\<open>isspace\<close> in the C locale: space, tab, newline, vertical tab, form feed, return.\<close>

definition is_space :: "char \<Rightarrow> bool" where
  "is_space c \<longleftrightarrow> (let n = of_char c :: nat in n = 32 \<or> (9 \<le> n \<and> n \<le> 13))"

text \<open>
  \<open>atoi s\<close> is \<open>(int) strtol(s, NULL, 10)\<close>: white space, an optional sign, digits, the value
  clamped to \<open>long\<close> and then converted to \<open>int\<close>.
\<close>

definition strtol_clamp :: "int \<Rightarrow> int" where
  "strtol_clamp x = max (- (2 ^ 63)) (min (2 ^ 63 - 1) x)"

definition atoi :: "string \<Rightarrow> int" where
  "atoi s = int32 (strtol_clamp (case dropWhile is_space (cstr s) of
       [] \<Rightarrow> 0
     | c # cs \<Rightarrow>
         if c = CHR ''-'' then - int (strtol_digits 0 cs)
         else if c = CHR ''+'' then int (strtol_digits 0 cs)
         else int (strtol_digits 0 (c # cs))))"

lemma less_10_cases:
  "(d::nat) < 10 \<Longrightarrow> d = 0 \<or> d = 1 \<or> d = 2 \<or> d = 3 \<or> d = 4 \<or> d = 5 \<or> d = 6 \<or> d = 7 \<or> d = 8 \<or> d = 9"
  by arith

lemma digit_val_digit_char: "d < 10 \<Longrightarrow> digit_val (digit_char d) = Some d"
  by (drule less_10_cases) (auto simp: digit_val_def digit_char_def)

lemma digit_char_props:
  "d < 10 \<Longrightarrow> \<not> is_space (digit_char d) \<and> digit_char d \<noteq> CHR ''-''
     \<and> digit_char d \<noteq> CHR ''+'' \<and> digit_char d \<noteq> CHR 0x00"
  by (drule less_10_cases) (auto simp: is_space_def digit_char_def)

lemma dec_nat_chars: "c \<in> set (dec_nat n) \<Longrightarrow> \<exists>d < 10. c = digit_char d"
proof (induction n rule: dec_nat.induct)
  case (1 n)
  show ?case
  proof (cases "n < 10")
    case True
    with "1.prems" show ?thesis by (auto simp: dec_nat.simps [of n])
  next
    case False
    with "1.prems" have "c \<in> set (dec_nat (n div 10)) \<or> c = digit_char (n mod 10)"
      by (auto simp: dec_nat.simps [of n])
    with "1.IH" False show ?thesis by (auto intro: exI [of _ "n mod 10"])
  qed
qed

lemma dec_nat_nonempty [simp]: "dec_nat n \<noteq> []"
  by (subst dec_nat.simps) simp

lemma nul_notin_dec_int [simp]: "CHR 0x00 \<notin> set (dec_int i)"
  by (auto simp: dec_int_def dest!: dec_nat_chars dest: digit_char_props)

lemma length_dec_nat: "n < 10 ^ k \<Longrightarrow> 0 < k \<Longrightarrow> length (dec_nat n) \<le> k"
proof (induction n arbitrary: k rule: dec_nat.induct)
  case (1 n)
  show ?case
  proof (cases "n < 10")
    case True
    with "1.prems" show ?thesis by (simp add: dec_nat.simps [of n])
  next
    case False
    with "1.prems" obtain j where k: "k = Suc j" and j: "0 < j"
      by (cases k; cases "k - 1") auto
    with "1.prems" have "n div 10 < 10 ^ j" by (simp add: less_mult_imp_div_less mult.commute)
    with "1.IH" [of j] False j have "length (dec_nat (n div 10)) \<le> j" by simp
    with False k show ?thesis by (simp add: dec_nat.simps [of n])
  qed
qed

lemma length_dec_int: "\<bar>i\<bar> < 10 ^ k \<Longrightarrow> 0 < k \<Longrightarrow> length (dec_int i) \<le> Suc k"
  using length_dec_nat [of "nat (- i)" k] length_dec_nat [of "nat i" k]
  by (auto simp: dec_int_def nat_less_iff le_SucI)

lemma strtol_digits_append:
  "\<forall>c \<in> set s. digit_val c \<noteq> None \<Longrightarrow> strtol_digits acc (s @ t) = strtol_digits (strtol_digits acc s) t"
  by (induction s arbitrary: acc) auto

lemma strtol_digits_dec_nat: "strtol_digits 0 (dec_nat n) = n"
proof (induction n rule: dec_nat.induct)
  case (1 n)
  show ?case
  proof (cases "n < 10")
    case True
    then show ?thesis by (simp add: dec_nat.simps [of n] digit_val_digit_char)
  next
    case False
    have all: "\<forall>c \<in> set (dec_nat (n div 10)). digit_val c \<noteq> None"
      using dec_nat_chars digit_val_digit_char by fastforce
    from False "1.IH" show ?thesis
      by (simp add: dec_nat.simps [of n] strtol_digits_append [OF all] digit_val_digit_char)
  qed
qed

lemma dec_nat_head: obtains d cs where "dec_nat n = digit_char d # cs" "d < 10"
proof -
  obtain c cs where e: "dec_nat n = c # cs" by (cases "dec_nat n") auto
  then have "c \<in> set (dec_nat n)" by simp
  then obtain d where "d < 10" "c = digit_char d" using dec_nat_chars by blast
  with e that show thesis by blast
qed

lemma atoi_dec_int:
  assumes "- (2 ^ 31) \<le> i" "i < 2 ^ 31"
  shows "atoi (dec_int i) = i"
proof -
  have clamp: "strtol_clamp i = i" using assms by (simp add: strtol_clamp_def)
  have c: "cstr (dec_int i) = dec_int i" by (rule cstr_id) simp
  obtain d cs where h: "dec_nat (nat i) = digit_char d # cs" and d: "d < 10"
    by (rule dec_nat_head)
  have n: "strtol_digits 0 (digit_char d # cs) = nat i"
    using strtol_digits_dec_nat [of "nat i"] by (simp only: h)
  have "atoi (dec_int i) = int32 (strtol_clamp i)"
  proof (cases "i < 0")
    case True
    then have "dec_int i = CHR ''-'' # dec_nat (nat (- i))" by (simp add: dec_int_def)
    with True show ?thesis
      unfolding atoi_def c by (simp add: is_space_def strtol_digits_dec_nat)
  next
    case False
    then have "dec_int i = digit_char d # cs" using h by (simp add: dec_int_def)
    with False n digit_char_props [OF d] show ?thesis
      unfolding atoi_def c by (simp del: strtol_digits.simps)
  qed
  with clamp assms show ?thesis by (simp add: int32_id)
qed

section \<open>Effects\<close>

text \<open>
  A C function that calls the operating system or aborts is a computation over a state \<open>'s\<close>:
  it returns a value or stops the program with a fault, in both cases with the state it leaves.
\<close>

datatype fault =
    AssertFailed string   \<comment> \<open>a failed \<open>assert\<close>\<close>
  | Exited int            \<comment> \<open>a call of \<open>exit\<close>\<close>
  | NullPointer string    \<comment> \<open>a null pointer is dereferenced\<close>
  | InvalidPointer string \<comment> \<open>freed or never allocated memory is accessed\<close>
  | OutOfBounds string    \<comment> \<open>an array is accessed outside its bounds\<close>
  | NeverReturns string   \<comment> \<open>a loop that does not end within its fuel\<close>

datatype 'a res = Ret 'a | Fault fault

type_synonym ('s, 'a) io = "'s \<Rightarrow> 'a res \<times> 's"

definition io_return :: "'a \<Rightarrow> ('s, 'a) io" where
  "io_return x = (\<lambda>s. (Ret x, s))"

definition io_fault :: "fault \<Rightarrow> ('s, 'a) io" where
  "io_fault e = (\<lambda>s. (Fault e, s))"

definition io_bind :: "('s, 'a) io \<Rightarrow> ('a \<Rightarrow> ('s, 'b) io) \<Rightarrow> ('s, 'b) io" where
  "io_bind m f = (\<lambda>s. case m s of (Ret x, s') \<Rightarrow> f x s' | (Fault e, s') \<Rightarrow> (Fault e, s'))"

definition io_then :: "('s, 'a) io \<Rightarrow> ('s, 'b) io \<Rightarrow> ('s, 'b) io" where
  "io_then m n = io_bind m (\<lambda>_. n)"

definition io_assert :: "string \<Rightarrow> bool \<Rightarrow> ('s, unit) io" where
  "io_assert msg b = (if b then io_return () else io_fault (AssertFailed msg))"

definition io_get :: "('s \<Rightarrow> 'a) \<Rightarrow> ('s, 'a) io" where
  "io_get f = (\<lambda>s. (Ret (f s), s))"

definition io_modify :: "('s \<Rightarrow> 's) \<Rightarrow> ('s, unit) io" where
  "io_modify f = (\<lambda>s. (Ret (), f s))"

definition io_res :: "'a res \<Rightarrow> ('s, 'a) io" where
  "io_res r = (\<lambda>s. (r, s))"

definition io_when :: "bool \<Rightarrow> ('s, unit) io \<Rightarrow> ('s, unit) io" where
  "io_when b m = (if b then m else io_return ())"

lemma io_run [io_simps]:
  "io_return x s = (Ret x, s)"
  "io_fault e s = (Fault e, s)"
  "io_then m n s = (case m s of (Ret x, s') \<Rightarrow> n s' | (Fault e, s') \<Rightarrow> (Fault e, s'))"
  "io_bind m f s = (case m s of (Ret x, s') \<Rightarrow> f x s' | (Fault e, s') \<Rightarrow> (Fault e, s'))"
  "io_assert msg b s = (if b then (Ret (), s) else (Fault (AssertFailed msg), s))"
  "io_get g s = (Ret (g s), s)"
  "io_modify h s = (Ret (), h s)"
  "io_when b p s = (if b then p s else (Ret (), s))"
  "io_res r s = (r, s)"
  by (simp_all add: io_return_def io_fault_def io_then_def io_bind_def io_assert_def io_get_def
      io_modify_def io_when_def io_res_def)

lemma io_bind_Ret [io_elims]:
  assumes "io_bind m f s = (Ret y, s'')"
  obtains x s' where "m s = (Ret x, s')" "f x s' = (Ret y, s'')"
  using assms by (auto simp: io_bind_def split: prod.splits res.splits)

lemma io_then_Ret [io_elims]:
  assumes "io_then m n s = (Ret y, s'')"
  obtains x s' where "m s = (Ret x, s')" "n s' = (Ret y, s'')"
  using assms by (auto simp: io_run split: prod.splits res.splits)

lemma io_bind_assoc: "io_bind (io_bind m f) g = io_bind m (\<lambda>x. io_bind (f x) g)"
  by (rule ext) (simp add: io_bind_def split: prod.split res.split)

lemma bind_return_left: "io_bind (io_return x) f = f x"
  by (rule ext) (simp add: io_run)

lemma bind_return_right: "io_bind m io_return = m"
  by (rule ext) (simp add: io_run split: prod.split res.split)

lemma bind_fault: "io_bind (io_fault e) f = io_fault e"
  by (rule ext) (simp add: io_run)

section \<open>Walking a linked table\<close>

text \<open>
  \<open>while(cur != NULL){ f(cur); cur = cur->next; }\<close>: the table is the list of its entries, and the
  walk applies \<open>f\<close> to each from the head, stopping at the first fault.
\<close>

fun walk :: "('p \<Rightarrow> ('s, 'p) io) \<Rightarrow> 'p list \<Rightarrow> ('s, 'p list) io" where
  "walk f [] = io_return []"
| "walk f (p # ps) = io_bind (f p) (\<lambda>p'. io_bind (walk f ps) (\<lambda>ps'. io_return (p' # ps')))"

end
