(* ===== verification/Fiveman_Double.thy ===== *)
theory Fiveman_Double
  imports Fiveman_Prelude "HOL-Library.Log_Nat"
begin

text \<open>
  The \<open>double\<close> arithmetic of the sources, on exact rationals: every operation rounds its exact
  result to 53 significant bits, ties to even. The values that occur (byte counts, seconds, ratios
  of 64-bit counters) are far from the overflow and underflow ranges, which are not modelled.
  \<open>fmt_g\<close> and \<open>fmt_f2\<close> are the conversions \<open>%g\<close> and \<open>%.2f\<close> of such a value: they round its exact
  decimal expansion, ties to even, as \<open>printf\<close> does.
\<close>

section \<open>Rounding\<close>

definition round_half_even :: "rat \<Rightarrow> int" where
  "round_half_even q =
     (let f = \<lfloor>q\<rfloor>; r = q - of_int f
      in if r < 1 / 2 then f else if 1 / 2 < r then f + 1 else if even f then f else f + 1)"

text \<open>\<open>round\<close> and \<open>lround\<close> of the C library round halves away from zero.\<close>

definition c_round :: "rat \<Rightarrow> int" where
  "c_round q = (if 0 \<le> q then \<lfloor>q + 1 / 2\<rfloor> else - \<lfloor>1 / 2 - q\<rfloor>)"

lemma round_half_even_error: "\<bar>of_int (round_half_even q) - q\<bar> \<le> 1 / 2"
proof -
  have f: "of_int \<lfloor>q\<rfloor> \<le> q" "q < of_int \<lfloor>q\<rfloor> + 1" using floor_correct [of q] by simp_all
  consider "q - of_int \<lfloor>q\<rfloor> < 1 / 2" | "1 / 2 < q - of_int \<lfloor>q\<rfloor>" | "q - of_int \<lfloor>q\<rfloor> = 1 / 2" by linarith
  then have "round_half_even q = \<lfloor>q\<rfloor> \<and> q - of_int \<lfloor>q\<rfloor> \<le> 1 / 2
      \<or> round_half_even q = \<lfloor>q\<rfloor> + 1 \<and> 1 / 2 \<le> q - of_int \<lfloor>q\<rfloor>"
    by cases (simp_all add: round_half_even_def Let_def)
  with f show ?thesis by auto
qed

lemma round_half_even_int [simp]: "round_half_even (of_int i) = i"
  by (simp add: round_half_even_def)

lemma round_half_even_near: "\<bar>q - of_int i\<bar> < 1 / 2 \<Longrightarrow> round_half_even q = i"
proof -
  assume "\<bar>q - of_int i\<bar> < 1 / 2"
  with round_half_even_error [of q] have "\<bar>of_int (round_half_even q) - of_int i :: rat\<bar> < 1"
    by linarith
  then have "\<bar>of_int (round_half_even q - i) :: rat\<bar> < of_int 1" by simp
  then show ?thesis by (simp only: of_int_abs [symmetric] of_int_less_iff)
qed

lemma round_half_even_mono:
  assumes "p \<le> q"
  shows "round_half_even p \<le> round_half_even q"
proof (rule ccontr)
  assume "\<not> ?thesis"
  then have lt: "round_half_even q + 1 \<le> round_half_even p" by simp
  then have "of_int (round_half_even q) + 1 \<le> (of_int (round_half_even p) :: rat)"
    by (metis of_int_1 of_int_add of_int_le_iff)
  with assms round_half_even_error [of p] round_half_even_error [of q]
  have "of_int (round_half_even p) = p + 1 / 2" "of_int (round_half_even q) = q - 1 / 2" "p = q"
    by linarith+
  then have "of_int (round_half_even q) + 1 = (of_int (round_half_even q) :: rat)" by simp
  then show False by simp
qed

lemma c_round_error: "\<bar>of_int (c_round q) - q\<bar> \<le> 1 / 2"
  using floor_correct [of "q + 1 / 2"] floor_correct [of "1 / 2 - q"]
  unfolding c_round_def of_int_add of_int_minus of_int_1 by (cases "0 \<le> q") (simp_all only: if_True if_False, linarith+)

lemma c_round_int [simp]: "c_round (of_int i) = i"
proof -
  have "\<lfloor>of_int i + 1 / 2 :: rat\<rfloor> = i" "\<lfloor>1 / 2 - of_int i :: rat\<rfloor> = - i"
    by (simp_all add: floor_eq_iff)
  then show ?thesis by (simp add: c_round_def)
qed

lemma c_round_nonneg: "0 \<le> q \<Longrightarrow> 0 \<le> c_round q"
  by (simp add: c_round_def)

lemma c_round_le_int: "q \<le> of_int i \<Longrightarrow> 0 \<le> q \<Longrightarrow> c_round q \<le> i"
  unfolding c_round_def by (simp add: floor_le_iff)

section \<open>Doubles\<close>

text \<open>\<open>bexp q\<close> is the binary exponent of a positive rational.\<close>

definition bexp :: "rat \<Rightarrow> int" where
  "bexp q = (case quotient_of q of (a, b) \<Rightarrow>
     let e = bitlen a - bitlen b in if 2 powi e \<le> q then e else e - 1)"

definition dbl :: "rat \<Rightarrow> rat" where
  "dbl q = (if q = 0 then 0
     else let s = bexp \<bar>q\<bar> - 52 in of_int (round_half_even (q / 2 powi s)) * 2 powi s)"

lemma bitlen_powi:
  assumes "0 < a"
  shows "2 powi (bitlen a - 1) \<le> (of_int a :: rat) \<and> (of_int a :: rat) < 2 powi bitlen a"
proof -
  have b: "1 \<le> bitlen a" using assms bitlen_eq_zero_iff [of a] bitlen_nonneg [of a] by linarith
  then have "(2 :: rat) powi (bitlen a - 1) = of_int (2 ^ nat (bitlen a - 1))"
    "(2 :: rat) powi bitlen a = of_int (2 ^ nat (bitlen a))"
    by (simp_all add: power_int_nonneg_exp)
  with bitlen_bounds [OF assms] show ?thesis by (simp only: of_int_le_iff of_int_less_iff)
qed

lemma powi_Suc: "(2 :: rat) powi (e + 1) = 2 * 2 powi e"
  by (simp add: power_int_add)

lemma powi_pos [simp]: "0 < (2 :: rat) powi e"
  by (simp add: zero_less_power_int)

lemma bexp:
  assumes "0 < q"
  shows "2 powi bexp q \<le> q \<and> q < 2 powi (bexp q + 1)"
proof -
  obtain a b where ab: "quotient_of q = (a, b)" by (cases "quotient_of q")
  then have b: "0 < b" and q: "q = of_int a / of_int b"
    by (simp_all add: quotient_of_denom_pos quotient_of_div)
  with assms have a: "0 < a" by (simp add: zero_less_divide_iff)
  let ?e = "bitlen a - bitlen b"
  note A = bitlen_powi [OF a] and B = bitlen_powi [OF b]
  have "q \<le> of_int a / 2 powi (bitlen b - 1)"
    unfolding q using a b B by (intro divide_left_mono) auto
  also have "\<dots> < 2 powi bitlen a / 2 powi (bitlen b - 1)"
    using A by (intro divide_strict_right_mono) auto
  also have "\<dots> = 2 powi (?e + 1)" by (simp add: power_int_diff [symmetric] algebra_simps)
  finally have up: "q < 2 powi (?e + 1)" .
  have "2 powi (bitlen a - 1) / 2 powi bitlen b \<le> (of_int a :: rat) / 2 powi bitlen b"
    using A by (intro divide_right_mono) auto
  also have "\<dots> < q"
    unfolding q using a b B by (intro divide_strict_left_mono) auto
  finally have "2 powi (bitlen a - 1) / 2 powi bitlen b < q" .
  moreover have "2 powi (bitlen a - 1) / 2 powi bitlen b = (2 :: rat) powi (?e - 1)"
    by (simp add: power_int_diff [symmetric] algebra_simps)
  ultimately have lo: "2 powi (?e - 1) < q" by simp
  show ?thesis using up lo by (auto simp: bexp_def ab Let_def)
qed

lemma powi_less_iff: "(2 :: rat) powi m < 2 powi n \<longleftrightarrow> m < n"
proof
  assume h: "(2 :: rat) powi m < 2 powi n"
  show "m < n"
  proof (rule ccontr)
    assume "\<not> m < n"
    then have "(2 :: rat) powi n \<le> 2 powi m" by (intro power_int_increasing) auto
    with h show False by simp
  qed
next
  assume "m < n" then show "(2 :: rat) powi m < 2 powi n" by (intro power_int_strict_increasing) auto
qed

lemma bexp_mono: "0 < p \<Longrightarrow> p \<le> q \<Longrightarrow> bexp p \<le> bexp q"
proof -
  assume "0 < p" "p \<le> q"
  with bexp [of p] bexp [of q] have "(2 :: rat) powi bexp p < 2 powi (bexp q + 1)" by linarith
  then show ?thesis by (simp add: powi_less_iff)
qed

lemma dbl_error_ulp: "0 < q \<Longrightarrow> \<bar>dbl q - q\<bar> \<le> 2 powi (bexp q - 53)"
proof -
  assume q: "0 < q"
  let ?s = "2 powi (bexp q - 52) :: rat"
  have s: "0 < ?s" "?s = 2 * 2 powi (bexp q - 53)"
    using powi_Suc [of "bexp q - 53"] by (simp_all add: algebra_simps)
  have "\<bar>dbl q - q\<bar> = \<bar>of_int (round_half_even (q / ?s)) - q / ?s\<bar> * ?s"
  proof -
    have "dbl q - q = (of_int (round_half_even (q / ?s)) - q / ?s) * ?s"
      using q s(1) by (simp add: dbl_def Let_def left_diff_distrib)
    then show ?thesis using s(1) by (simp add: abs_mult)
  qed
  also have "\<dots> \<le> 1 / 2 * ?s" using round_half_even_error [of "q / ?s"] s(1)
    by (intro mult_right_mono) auto
  also have "\<dots> = 2 powi (bexp q - 53)" using s(2) by simp
  finally show ?thesis .
qed

lemma dbl_error: "0 \<le> q \<Longrightarrow> \<bar>dbl q - q\<bar> \<le> q / 2 ^ 53"
proof (cases "q = 0")
  case False
  assume "0 \<le> q"
  with False have q: "0 < q" by simp
  have "2 powi (bexp q - 53) = (2 :: rat) powi bexp q / 2 powi 53" by (rule power_int_diff) simp
  also have "\<dots> \<le> q / 2 ^ 53" using bexp [OF q] by (simp add: divide_right_mono)
  finally show ?thesis using dbl_error_ulp [OF q] by linarith
qed (simp add: dbl_def)

lemma dbl_zero [simp]: "dbl 0 = 0"
  by (simp add: dbl_def)

lemma dbl_nonneg: "0 \<le> q \<Longrightarrow> 0 \<le> dbl q"
proof -
  assume q: "0 \<le> q"
  then have "q / 2 ^ 53 \<le> q" by (simp add: field_simps)
  with dbl_error [OF q] show ?thesis by linarith
qed

lemma dbl_int_abs:
  assumes "\<bar>i\<bar> < 2 ^ 53"
  shows "dbl (of_int i) = of_int i"
proof (cases "i = 0")
  case False
  then have i: "0 < \<bar>of_int i :: rat\<bar>" by simp
  have "(of_int \<bar>i\<bar> :: rat) < of_int (2 ^ 53)" using assms by (simp only: of_int_less_iff)
  then have "\<bar>of_int i :: rat\<bar> < 2 powi 53" by simp
  with bexp [OF i] have "(2 :: rat) powi bexp \<bar>of_int i\<bar> < 2 powi 53" by linarith
  then have e: "bexp \<bar>of_int i\<bar> \<le> 52" by (simp only: powi_less_iff)
  let ?k = "nat (52 - bexp \<bar>of_int i\<bar>)"
  have "(2 :: rat) powi (bexp \<bar>of_int i\<bar> - 52) = inverse (2 ^ ?k)"
    using e power_int_minus [of "2 :: rat" "52 - bexp \<bar>of_int i\<bar>"] by (simp add: power_int_nonneg_exp)
  then have k: "of_int i / 2 powi (bexp \<bar>of_int i\<bar> - 52) = (of_int (i * 2 ^ ?k) :: rat)"
    by (simp add: divide_inverse)
  have "dbl (of_int i) = of_int (i * 2 ^ ?k) * 2 powi (bexp \<bar>of_int i\<bar> - 52)"
    using False unfolding dbl_def Let_def by (simp only: k round_half_even_int) simp
  also have "\<dots> = of_int i"
    unfolding k [symmetric] by simp
  finally show ?thesis .
qed simp

lemma dbl_int: "0 \<le> i \<Longrightarrow> i < 2 ^ 53 \<Longrightarrow> dbl (of_int i) = of_int i"
  by (rule dbl_int_abs) simp

lemma dbl_mono:
  assumes "0 \<le> p" "p \<le> q"
  shows "dbl p \<le> dbl q"
proof (cases "p = 0")
  case True
  then show ?thesis using assms dbl_nonneg [of q] by simp
next
  case False
  with assms have p: "0 < p" and q: "0 < q" by auto
  let ?s = "\<lambda>x. 2 powi (bexp x - 52) :: rat"
  have d: "dbl x = of_int (round_half_even (x / ?s x)) * ?s x" if "0 < x" for x
    using that by (simp add: dbl_def Let_def)
  show ?thesis
  proof (cases "bexp p = bexp q")
    case True
    have "round_half_even (p / ?s p) \<le> round_half_even (q / ?s p)"
      using assms(2) by (intro round_half_even_mono divide_right_mono) auto
    then show ?thesis unfolding d [OF p] d [OF q] True [symmetric]
      by (intro mult_right_mono) (simp_all only: of_int_le_iff powi_pos less_imp_le)
  next
    case False
    with bexp_mono [OF p assms(2)] have lt: "bexp p + 1 \<le> bexp q" by simp
    have up: "round_half_even (x / ?s x) \<le> 2 ^ 53" if "0 < x" for x
    proof -
      have "x / ?s x \<le> 2 powi (bexp x + 1) / ?s x"
        using bexp [OF that] by (intro divide_right_mono) auto
      also have "\<dots> = 2 powi 53" by (simp add: power_int_diff [symmetric])
      finally have "round_half_even (x / ?s x) \<le> round_half_even (of_int (2 ^ 53))"
        by (intro round_half_even_mono) simp
      then show ?thesis by (simp only: round_half_even_int)
    qed
    have low: "2 ^ 52 \<le> round_half_even (x / ?s x)" if "0 < x" for x
    proof -
      have "2 powi 52 = 2 powi bexp x / ?s x" by (simp add: power_int_diff [symmetric])
      also have "\<dots> \<le> x / ?s x" using bexp [OF that] by (intro divide_right_mono) auto
      finally have "round_half_even (of_int (2 ^ 52)) \<le> round_half_even (x / ?s x)"
        by (intro round_half_even_mono) simp
      then show ?thesis by (simp only: round_half_even_int)
    qed
    have "dbl p \<le> of_int (2 ^ 53) * ?s p" unfolding d [OF p]
      using up [OF p] by (intro mult_right_mono) (simp_all only: of_int_le_iff powi_pos less_imp_le)
    also have "\<dots> = 2 powi (bexp p + 1)"
      using power_int_add [of "2 :: rat" 53 "bexp p - 52"] by (simp add: algebra_simps)
    also have "\<dots> \<le> 2 powi bexp q" using lt by (intro power_int_increasing) auto
    also have "\<dots> = of_int (2 ^ 52) * ?s q"
      using power_int_add [of "2 :: rat" 52 "bexp q - 52"] by (simp add: algebra_simps)
    also have "\<dots> \<le> dbl q" unfolding d [OF q]
      using low [OF q] by (intro mult_right_mono) (simp_all only: of_int_le_iff powi_pos less_imp_le)
    finally show ?thesis .
  qed
qed

section \<open>Printing\<close>

fun digits_w :: "nat \<Rightarrow> nat \<Rightarrow> string" where
  "digits_w 0 n = []"
| "digits_w (Suc w) n = digits_w w (n div 10) @ [digit_char (n mod 10)]"

definition strip_zeros :: "string \<Rightarrow> string" where
  "strip_zeros s = rev (dropWhile (\<lambda>c. c = CHR ''0'') (rev s))"

definition point :: "string \<Rightarrow> string" where
  "point s = (if s = [] then [] else CHR ''.'' # s)"

text \<open>The decimal exponent of a positive rational.\<close>

definition dec_exponent :: "rat \<Rightarrow> int" where
  "dec_exponent a =
     (if 1 \<le> a then int (length (dec_nat (nat \<lfloor>a\<rfloor>))) - 1
      else let k = length (dec_nat (nat \<lfloor>1 / a\<rfloor>))
           in if a * 10 ^ (k - 1) = 1 then - int (k - 1) else - int k)"

text \<open>\<open>%g\<close>: six significant digits, trailing zeros removed, exponent style outside \<open>[-4, 6)\<close>.\<close>

definition fmt_g :: "rat \<Rightarrow> string" where
  "fmt_g x =
     (let a = \<bar>x\<bar> in
      if a = 0 then ''0'' else
      let X0 = dec_exponent a;
          d0 = nat (round_half_even (a * 10 powi (5 - X0)));
          X = (if d0 = 10 ^ 6 then X0 + 1 else X0);
          d = (if d0 = 10 ^ 6 then 10 ^ 5 else d0)
      in (if x < 0 then ''-'' else []) @
         (if - 4 \<le> X \<and> X < 6
          then dec_nat (d div 10 ^ nat (5 - X))
                 @ point (strip_zeros (digits_w (nat (5 - X)) (d mod 10 ^ nat (5 - X))))
          else digit_char (d div 10 ^ 5) # point (strip_zeros (digits_w 5 (d mod 10 ^ 5))) @ ''e''
                 @ (if X < 0 then ''-'' else ''+'')
                 @ (if \<bar>X\<bar> < 10 then ''0'' else []) @ dec_nat (nat \<bar>X\<bar>)))"

text \<open>\<open>%.2f\<close>\<close>

definition fmt_f2 :: "rat \<Rightarrow> string" where
  "fmt_f2 x =
     (let h = nat (round_half_even (\<bar>x\<bar> * 100))
      in (if x < 0 then ''-'' else []) @ dec_nat (h div 100) @ ''.'' @ digits_w 2 (h mod 100))"

lemma fmt_f2_int: "fmt_f2 (of_int d) = dec_int d @ ''.00''"
proof -
  have h: "\<bar>of_int d :: rat\<bar> * 100 = of_int (\<bar>d\<bar> * 100)" by simp
  have n: "nat (\<bar>d\<bar> * 100) = nat \<bar>d\<bar> * 100" by (simp add: nat_mult_distrib)
  have "digits_w 2 0 = ''00''" by (simp add: numeral_2_eq_2 digit_char_def)
  then show ?thesis unfolding fmt_f2_def Let_def h round_half_even_int n
    by (simp add: dec_int_def)
qed

text \<open>A number of hundredths as a decimal, without trailing zeros.\<close>

definition hundredths :: "nat \<Rightarrow> string" where
  "hundredths n = dec_nat (n div 100) @ point (strip_zeros (digits_w 2 (n mod 100)))"

lemma length_digits_w [simp]: "length (digits_w w n) = w"
  by (induction w arbitrary: n) auto

lemma length_strip_zeros: "length (strip_zeros s) \<le> length s"
  unfolding strip_zeros_def using length_dropWhile_le [of _ "rev s"] by simp

lemma strip_zeros_replicate: "strip_zeros (s @ replicate j CHR ''0'') = strip_zeros s"
proof -
  have "dropWhile (\<lambda>c. c = CHR ''0'') (replicate j CHR ''0'' @ t) = dropWhile (\<lambda>c. c = CHR ''0'') t" for t
    by (induction j) simp_all
  then show ?thesis by (simp add: strip_zeros_def)
qed

lemma digits_w_shift: "digits_w (w + j) (m * 10 ^ j) = digits_w w m @ replicate j CHR ''0''"
  by (induction j)
    (simp_all add: digit_char_def replicate_append_same [symmetric] mult.assoc [symmetric] mult.commute)

lemma length_dec_nat_eq:
  "10 ^ X \<le> n \<Longrightarrow> n < 10 ^ Suc X \<Longrightarrow> length (dec_nat n) = Suc X"
proof (induction X arbitrary: n)
  case 0
  then show ?case by (simp add: dec_nat.simps [of n])
next
  case (Suc X)
  then have "10 ^ X \<le> n div 10" "n div 10 < 10 ^ Suc X"
    by (simp_all add: less_eq_div_iff_mult_less_eq mult.commute less_mult_imp_div_less)
  with Suc.IH have "length (dec_nat (n div 10)) = Suc X" by blast
  moreover have "(1 :: nat) \<le> 10 ^ X" by simp
  with Suc.prems(1) have "\<not> n < 10" unfolding power_Suc by linarith
  ultimately show ?case by (simp add: dec_nat.simps [of n])
qed

lemma dec_exponent_eq:
  assumes "10 ^ X \<le> y" "y < 10 ^ Suc X"
  shows "dec_exponent y = int X"
proof -
  have y1: "1 \<le> y" using assms(1) one_le_power [of "10 :: rat" X] by linarith
  have "of_int (10 ^ X) \<le> y" "y < of_int (10 ^ Suc X)" using assms by simp_all
  then have "10 ^ X \<le> \<lfloor>y\<rfloor>" "\<lfloor>y\<rfloor> < 10 ^ Suc X"
    by (simp_all only: le_floor_iff floor_less_iff)
  then have "10 ^ X \<le> nat \<lfloor>y\<rfloor>" "nat \<lfloor>y\<rfloor> < 10 ^ Suc X"
    using y1 nat_less_iff [of "\<lfloor>y\<rfloor>" "10 ^ Suc X"] by (simp_all add: le_nat_iff)
  then have "length (dec_nat (nat \<lfloor>y\<rfloor>)) = Suc X" by (rule length_dec_nat_eq)
  with y1 show ?thesis by (simp add: dec_exponent_def)
qed

lemma fmt_g_fixed:
  assumes X: "10 ^ X \<le> y" "y < 10 ^ Suc X" "X \<le> 3"
    and near: "\<bar>y - of_nat N / 100\<bar> < 1 / (2 * 10 ^ 5)" and N: "N < 10 ^ (X + 3)"
  shows "fmt_g y = hundredths N"
proof -
  have y: "0 < y" using X(1) zero_less_power [of "10 :: rat" X] by linarith
  let ?c = "10 ^ (3 - X) :: nat"
  have five: "5 - X = 2 + (3 - X)" using X(3) by simp
  have p: "(10 :: rat) powi (5 - int X) = 10 ^ (5 - X)"
    using X(3) power_int_of_nat [of "10 :: rat" "5 - X"] by (simp add: of_nat_diff)
  have c100: "(10 :: rat) ^ (5 - X) = 100 * of_nat ?c" unfolding five by (simp add: power_add)
  have "\<bar>y * 10 ^ (5 - X) - of_int (int (N * ?c))\<bar> = \<bar>y - of_nat N / 100\<bar> * 10 ^ (5 - X)"
  proof -
    have "y * 10 ^ (5 - X) - of_int (int (N * ?c)) = (y - of_nat N / 100) * 10 ^ (5 - X)"
      unfolding c100 by (simp add: left_diff_distrib)
    then show ?thesis by (simp only: abs_mult power_abs abs_numeral)
  qed
  also have "\<dots> \<le> \<bar>y - of_nat N / 100\<bar> * 10 ^ 5"
    by (intro mult_left_mono power_increasing) auto
  also have "\<dots> < 1 / 2" using near by simp
  finally have r: "round_half_even (y * 10 ^ (5 - X)) = int (N * ?c)"
    by (rule round_half_even_near)
  have "N * ?c < 10 ^ (X + 3) * ?c" using N by simp
  also have "\<dots> = 10 ^ 6" using X(3) by (simp flip: power_add)
  finally have small: "N * ?c \<noteq> 10 ^ 6" by simp
  have split: "N * ?c div 10 ^ (5 - X) = N div 100" "N * ?c mod 10 ^ (5 - X) = (N mod 100) * ?c"
    unfolding five by (simp_all add: power_add)
  have digits: "digits_w (5 - X) ((N mod 100) * ?c) = digits_w 2 (N mod 100) @ replicate (3 - X) CHR ''0''"
    unfolding five by (rule digits_w_shift)
  define D where "D = N * ?c"
  have d0: "nat (round_half_even (\<bar>y\<bar> * 10 powi (5 - dec_exponent \<bar>y\<bar>))) = D"
    using y r by (simp add: dec_exponent_eq [OF X(1,2)] p D_def del: of_nat_mult of_nat_power)
  have e: "dec_exponent \<bar>y\<bar> = int X" "nat (5 - int X) = 5 - X" "- 4 \<le> int X \<and> int X < 6"
    using y X(3) by (simp_all add: dec_exponent_eq [OF X(1,2)])
  have "fmt_g y = dec_nat (D div 10 ^ (5 - X)) @ point (strip_zeros (digits_w (5 - X) (D mod 10 ^ (5 - X))))"
    unfolding fmt_g_def Let_def unfolding d0 unfolding e(1)
    using y small e(2,3) by (simp add: D_def [symmetric])
  then show ?thesis
    unfolding D_def split digits strip_zeros_replicate hundredths_def .
qed

end
