(* ===== verification/Fiveman_Measure.thy ===== *)
theory Fiveman_Measure
  imports Fiveman_Double
begin

text \<open>
  \<open>byte_measurement_string\<close> and \<open>readwrite_byte_measurement_string\<close> of \<open>src/ncurses_screen.c\<close>, with
  the unit constants of \<open>src/fiveman.h\<close>. The output buffer is an explicit list of bytes, and a write
  outside it is a fault.
\<close>

section \<open>Units\<close>

definition BYTES_PER_KILOBYTE :: int where "BYTES_PER_KILOBYTE = 1024"
definition BYTES_PER_MEGABYTE :: int where "BYTES_PER_MEGABYTE = BYTES_PER_KILOBYTE * 1024"
definition BYTES_PER_GIGABYTE :: int where "BYTES_PER_GIGABYTE = BYTES_PER_MEGABYTE * 1024"
definition BYTES_PER_TERABYTE :: int where "BYTES_PER_TERABYTE = BYTES_PER_GIGABYTE * 1024"
definition BYTES_PER_PETABYTE :: int where "BYTES_PER_PETABYTE = BYTES_PER_TERABYTE * 1024"
definition BYTES_PER_EXABYTE :: int where "BYTES_PER_EXABYTE = BYTES_PER_TERABYTE * 1024"

lemmas byte_units = BYTES_PER_KILOBYTE_def BYTES_PER_MEGABYTE_def BYTES_PER_GIGABYTE_def
  BYTES_PER_TERABYTE_def BYTES_PER_PETABYTE_def BYTES_PER_EXABYTE_def

text \<open>The \<open>if\<close> chain: the divisor and the suffix that a measurement selects.\<close>

definition byte_unit :: "int \<Rightarrow> int \<times> string" where
  "byte_unit m =
     (if 1 \<le> m sdiv BYTES_PER_EXABYTE then (BYTES_PER_EXABYTE, ''EB'')
      else if 1 \<le> m sdiv BYTES_PER_PETABYTE then (BYTES_PER_PETABYTE, ''PB'')
      else if 1 \<le> m sdiv BYTES_PER_TERABYTE then (BYTES_PER_TERABYTE, ''TB'')
      else if 1 \<le> m sdiv BYTES_PER_GIGABYTE then (BYTES_PER_GIGABYTE, ''GB'')
      else if 1 \<le> m sdiv BYTES_PER_MEGABYTE then (BYTES_PER_MEGABYTE, ''MB'')
      else if 1 \<le> m sdiv BYTES_PER_KILOBYTE then (BYTES_PER_KILOBYTE, ''kB'')
      else (1, ''B''))"

definition byte_measurement_text :: "int \<Rightarrow> string" where
  "byte_measurement_text m =
     (let (unit, suffix) = byte_unit m;
          amount = dbl (dbl (of_int m) / dbl (of_int unit));
          amount' = dbl (of_int (c_round (dbl (amount * 100))) / 100)
      in fmt_g amount' @ suffix)"

section \<open>Writing into a buffer\<close>

text \<open>
  \<open>snprintf(&buf[off], n, \<dots>)\<close> of the text \<open>s\<close>: at most \<open>n - 1\<close> characters and a NUL, nothing when
  \<open>n\<close> is 0. Both functions return the length of the whole text.
\<close>

definition store_at :: "char list \<Rightarrow> nat \<Rightarrow> char list \<Rightarrow> char list res" where
  "store_at buf off bytes =
     (if off + length bytes \<le> length buf
      then Ret (take off buf @ bytes @ drop (off + length bytes) buf)
      else Fault (OutOfBounds ''buffer''))"

definition snprintf_at :: "char list \<Rightarrow> nat \<Rightarrow> nat \<Rightarrow> string \<Rightarrow> char list res" where
  "snprintf_at buf off n s =
     (if n = 0 then Ret buf else store_at buf off (take (n - 1) s @ [CHR 0x00]))"

definition byte_measurement_string ::
  "int \<Rightarrow> char list \<Rightarrow> nat \<Rightarrow> nat \<Rightarrow> (nat \<times> char list) res" where
  "byte_measurement_string m buf off buf_size =
     (let out = byte_measurement_text m
      in case snprintf_at buf off buf_size out of
           Fault e \<Rightarrow> Fault e
         | Ret buf' \<Rightarrow> Ret (length out, buf'))"

definition readwrite_byte_measurement_string ::
  "int \<Rightarrow> int \<Rightarrow> char list \<Rightarrow> nat \<Rightarrow> (nat \<times> char list) res" where
  "readwrite_byte_measurement_string r w buf buf_size =
     (case byte_measurement_string r buf 0 buf_size of
        Fault e \<Rightarrow> Fault e
      | Ret (written, buf1) \<Rightarrow>
          if written < buf_size then
            (case store_at buf1 written [CHR ''/''] of
               Fault e \<Rightarrow> Fault e
             | Ret buf2 \<Rightarrow>
                 let written2 = written + 1; remainder = buf_size - written2
                 in if remainder > 0 then
                      (case byte_measurement_string w buf2 written2 remainder of
                         Fault e \<Rightarrow> Fault e
                       | Ret (more, buf3) \<Rightarrow> Ret (written2 + more, buf3))
                    else Ret (written2, buf2))
          else Ret (written, buf1))"

section \<open>The amount shown\<close>

lemma byte_unit_cases:
  assumes "0 \<le> m" "m < 2 ^ 63"
  shows "byte_unit m \<in> {(1, ''B''), (2 ^ 10, ''kB''), (2 ^ 20, ''MB''), (2 ^ 30, ''GB''),
      (2 ^ 40, ''TB''), (2 ^ 50, ''EB'')}
    \<and> (m = 0 \<or> fst (byte_unit m) \<le> m) \<and> m < 8192 * fst (byte_unit m)"
  using assms unfolding byte_unit_def byte_units
  by (simp add: sdiv_ge_1_iff split: if_splits; linarith)

lemma byte_unit_exact:
  assumes "0 \<le> m" "m < 2 ^ 63"
  shows "dbl (of_int (fst (byte_unit m))) = of_int (fst (byte_unit m)) \<and> 1 \<le> fst (byte_unit m)"
  using byte_unit_cases [OF assms] by (auto intro!: dbl_int)

lemma fmt_g_hundredths_at:
  assumes "10 ^ (X + 2) \<le> N" "N < 10 ^ (X + 3)" "X \<le> 3"
  shows "fmt_g (dbl (of_nat N / 100)) = hundredths N"
proof -
  let ?x = "of_nat N / 100 :: rat"
  have N6: "N < 10 ^ 6" using assms(2,3) power_increasing [of "X + 3" 6 "10 :: nat"] by linarith
  have "of_nat (10 ^ (X + 2)) \<le> (of_nat N :: rat)" using assms(1) by (simp only: of_nat_le_iff)
  then have lo: "10 ^ X \<le> ?x" by (simp add: power_add)
  have "Suc N \<le> 10 ^ (X + 3)" using assms(2) by simp
  then have "of_nat (Suc N) \<le> (of_nat (10 ^ (X + 3)) :: rat)" by (simp only: of_nat_le_iff)
  then have hi: "?x + 1 / 100 \<le> 10 ^ Suc X" by (simp add: power_add)
  have "(of_nat N :: rat) < of_nat (10 ^ 6)" using N6 by (simp only: of_nat_less_iff)
  then have small: "?x < 10 ^ 4" by simp
  have err: "\<bar>dbl ?x - ?x\<bar> \<le> ?x / 2 ^ 53" by (rule dbl_error) simp
  have tiny: "?x / 2 ^ 53 < 1 / (2 * 10 ^ 5)" using small by (simp add: field_simps)
  have "dbl (of_int (10 ^ X)) \<le> dbl ?x" using lo by (intro dbl_mono) simp_all
  moreover have "(10 :: int) ^ X < 2 ^ 53" using assms(3) power_increasing [of X 3 "10 :: int"] by simp
  then have "dbl (of_int (10 ^ X)) = of_int (10 ^ X)" by (intro dbl_int) simp_all
  ultimately have "10 ^ X \<le> dbl ?x" by simp
  moreover have near: "\<bar>dbl ?x - of_nat N / 100\<bar> < 1 / (2 * 10 ^ 5)" using err tiny by (rule le_less_trans)
  moreover have "dbl ?x - ?x < 1 / (2 * 10 ^ 5)" using near by (simp only: abs_less_iff)
  then have "dbl ?x < ?x + 1 / 100" by simp
  with hi have "dbl ?x < 10 ^ Suc X" by linarith
  ultimately show ?thesis using assms(2,3) by (intro fmt_g_fixed)
qed

lemma fmt_g_hundredths:
  assumes "N = 0 \<or> 100 \<le> N" "N < 10 ^ 6"
  shows "fmt_g (dbl (of_nat N / 100)) = hundredths N"
proof (cases "N = 0")
  case True
  then show ?thesis
    by (simp add: fmt_g_def hundredths_def dec_nat.simps digit_char_def numeral_2_eq_2
        strip_zeros_def point_def)
next
  case False
  with assms have "N < 1000 \<or> 1000 \<le> N \<and> N < 10000 \<or> 10000 \<le> N \<and> N < 100000
      \<or> 100000 \<le> N \<and> N < 1000000" "100 \<le> N" by simp_all linarith
  then show ?thesis
    using fmt_g_hundredths_at [of 0 N] fmt_g_hundredths_at [of 1 N] fmt_g_hundredths_at [of 2 N]
      fmt_g_hundredths_at [of 3 N]
    by simp blast
qed

lemma rounding_chain:
  assumes "\<bar>d - x\<bar> \<le> x / 2 ^ 53" "\<bar>a - d\<bar> \<le> d / 2 ^ 53" "\<bar>p - a * 100\<bar> \<le> a * 100 / 2 ^ 53"
    and "0 \<le> x" "x < (8192 :: rat)"
  shows "\<bar>p - 100 * x\<bar> \<le> 1 / 1000000"
proof -
  have k: "(2 :: rat) ^ 53 = 9007199254740992" by simp
  have d1: "\<bar>d - x\<bar> \<le> 1 / 1000000000" using assms(1,4,5) unfolding k by linarith
  then have "d \<le> 8193" using assms(5) by linarith
  then have a1: "\<bar>a - d\<bar> \<le> 1 / 1000000000" "a \<le> 8194" using assms(2) unfolding k by linarith+
  then have "\<bar>p - a * 100\<bar> \<le> 1 / 1000000000" using assms(3) unfolding k by linarith
  with d1 a1 show ?thesis by linarith
qed

text \<open>The number of hundredths shown, and how far it is from the exact quotient.\<close>

lemma byte_measurement_text_hundredths:
  assumes "0 \<le> m" "m < 2 ^ 63"
  obtains N where "byte_measurement_text m = hundredths N @ snd (byte_unit m)"
    and "\<bar>of_nat N - 100 * of_int m / of_int (fst (byte_unit m)) :: rat\<bar> \<le> 1 / 2 + 1 / 1000000"
    and "N < 10 ^ 6"
proof -
  let ?u = "of_int (fst (byte_unit m)) :: rat"
  let ?x = "of_int m / ?u" and ?d = "dbl (of_int m) / ?u"
  let ?a = "dbl ?d" and ?p = "dbl (dbl ?d * 100)"
  let ?N = "nat (c_round ?p)"
  note U = byte_unit_cases [OF assms] and E = byte_unit_exact [OF assms]
  have u1: "1 \<le> ?u" using E by simp
  have m0: "0 \<le> (of_int m :: rat)" using assms(1) by simp
  have x0: "0 \<le> ?x" "?x < 8192"
  proof -
    have "of_int m < (of_int (8192 * fst (byte_unit m)) :: rat)" using U by (simp only: of_int_less_iff)
    then show "?x < 8192" using u1 by (simp add: divide_less_eq)
  qed (use m0 u1 in simp)
  have "\<bar>?d - ?x\<bar> = \<bar>dbl (of_int m) - of_int m\<bar> / ?u"
    using u1 by (simp add: diff_divide_distrib [symmetric])
  also have "\<dots> \<le> of_int m / 2 ^ 53 / ?u" using dbl_error [OF m0] u1 by (intro divide_right_mono) auto
  finally have e1: "\<bar>?d - ?x\<bar> \<le> ?x / 2 ^ 53" by simp
  have d0: "0 \<le> ?d" using dbl_nonneg [OF m0] u1 by simp
  have e2: "\<bar>?a - ?d\<bar> \<le> ?d / 2 ^ 53" by (rule dbl_error [OF d0])
  have a0: "0 \<le> ?a" by (rule dbl_nonneg [OF d0])
  have e3: "\<bar>?p - ?a * 100\<bar> \<le> ?a * 100 / 2 ^ 53" using a0 by (intro dbl_error) simp
  have p0: "0 \<le> ?p" using a0 by (intro dbl_nonneg) simp
  have e4: "\<bar>of_int (c_round ?p) - ?p\<bar> \<le> 1 / 2" by (rule c_round_error)
  have N: "int ?N = c_round ?p" using c_round_nonneg [OF p0] by simp
  then have Nq: "(of_nat ?N :: rat) = of_int (c_round ?p)" by (metis of_int_of_nat_eq)
  have close: "\<bar>?p - 100 * ?x\<bar> \<le> 1 / 1000000" by (rule rounding_chain [OF e1 e2 e3 x0])
  have bound: "\<bar>of_nat ?N - 100 * of_int m / ?u\<bar> \<le> 1 / 2 + 1 / 1000000"
    using close e4 unfolding Nq times_divide_eq_right by linarith
  have "(of_nat ?N :: rat) < 1000000" using close e4 x0 unfolding Nq by linarith
  then have "(of_nat ?N :: rat) < of_nat (10 ^ 6)" by simp
  then have N6: "?N < 10 ^ 6" by (simp only: of_nat_less_iff)
  have "?N = 0 \<or> 100 \<le> ?N"
  proof (cases "m = 0")
    case True then show ?thesis by (simp add: c_round_def)
  next
    case False
    with U have "?u \<le> of_int m" by simp
    then have "dbl ?u \<le> dbl (of_int m)" using u1 by (intro dbl_mono) auto
    then have "1 \<le> ?d" using E u1 by (simp add: le_divide_eq)
    then have "dbl (of_int 1) \<le> ?a" by (intro dbl_mono) simp_all
    then have "1 \<le> ?a" using dbl_int [of 1] by simp
    then have "dbl (of_int 100) \<le> ?p" by (intro dbl_mono) simp_all
    then have "100 \<le> ?p" using dbl_int [of 100] by simp
    then have "100 \<le> c_round ?p" using p0 by (simp add: c_round_def le_floor_iff)
    then show ?thesis using N by linarith
  qed
  then have "fmt_g (dbl (of_nat ?N / 100)) = hundredths ?N" using N6 by (rule fmt_g_hundredths)
  then have "byte_measurement_text m = hundredths ?N @ snd (byte_unit m)"
    unfolding byte_measurement_text_def using E by (simp add: Nq case_prod_beta' Let_def)
  with bound N6 show thesis by (rule that [rotated 1])
qed

lemma hundredths_chars: "c \<in> set (hundredths n) \<Longrightarrow> c \<noteq> CHR 0x00"
proof -
  assume c: "c \<in> set (hundredths n)"
  have w: "c \<in> set (digits_w w m) \<Longrightarrow> \<exists>d < 10. c = digit_char d" for w m
    by (induction w arbitrary: m) (auto intro: exI [of _ "m mod 10" for m])
  from c consider "c \<in> set (dec_nat (n div 100))" | "c = CHR ''.''" | "c \<in> set (digits_w 2 (n mod 100))"
    by (auto simp: hundredths_def point_def strip_zeros_def dest: set_dropWhileD split: if_splits)
  then show ?thesis
    by cases (use dec_nat_chars w digit_char_props in \<open>fastforce+\<close>)
qed

lemma length_hundredths: "n < 10 ^ 6 \<Longrightarrow> length (hundredths n) \<le> 7"
proof -
  assume "n < 10 ^ 6"
  then have "n div 100 < 10 ^ 4" by (simp add: less_mult_imp_div_less)
  then have "length (dec_nat (n div 100)) \<le> 4" by (rule length_dec_nat) simp
  moreover have "length (point (strip_zeros (digits_w 2 (n mod 100)))) \<le> 3"
    using length_strip_zeros [of "digits_w 2 (n mod 100)"] by (simp add: point_def)
  ultimately show ?thesis by (simp add: hundredths_def)
qed

lemma byte_measurement_text_bounds:
  assumes "0 \<le> m" "m < 2 ^ 63"
  shows "CHR 0x00 \<notin> set (byte_measurement_text m) \<and> length (byte_measurement_text m) \<le> 9"
proof -
  obtain N where N: "byte_measurement_text m = hundredths N @ snd (byte_unit m)" "N < 10 ^ 6"
    using byte_measurement_text_hundredths [OF assms] by metis
  with length_hundredths [OF N(2)] hundredths_chars [of _ N] byte_unit_cases [OF assms]
  show ?thesis by auto
qed

section \<open>The buffer of a read/write column\<close>

text \<open>What the two calls leave in a zeroed buffer, as a C string.\<close>

definition readwrite_shown :: "int \<Rightarrow> int \<Rightarrow> nat \<Rightarrow> string" where
  "readwrite_shown r w buf_size =
     take (if length (byte_measurement_text r) + 1 = buf_size then buf_size else buf_size - 1)
       (byte_measurement_text r @ ''/'' @ byte_measurement_text w)"

abbreviation zeros :: "nat \<Rightarrow> char list" where
  "zeros n \<equiv> replicate n CHR 0x00"

lemma store_at_zeros:
  assumes "length pre + length bytes \<le> length pre + n"
  shows "store_at (pre @ zeros n) (length pre) bytes = Ret (pre @ bytes @ zeros (n - length bytes))"
  using assms by (simp add: store_at_def)

lemma snprintf_at_zeros:
  assumes "0 < n" "n \<le> k"
  shows "snprintf_at (pre @ zeros k) (length pre) n s
    = Ret (pre @ take (n - 1) s @ zeros (k - min (n - 1) (length s)))"
proof -
  have "[CHR 0x00] @ zeros (k - Suc (min (n - 1) (length s))) = zeros (k - min (n - 1) (length s))"
    using assms by (cases "k - min (n - 1) (length s)") auto
  then show ?thesis
    using assms store_at_zeros [of pre "take (n - 1) s @ [CHR 0x00]" k]
    by (simp add: snprintf_at_def min.commute)
qed

lemma cstr_zeros: "CHR 0x00 \<notin> set s \<Longrightarrow> cstr (s @ zeros n) = s"
  by (cases n) (simp_all add: cstr_id cstr_append_nul)

lemma readwrite_zeroed:
  assumes "0 < n"
  shows "\<exists>len. readwrite_byte_measurement_string r w (zeros (Suc n)) n =
     Ret (len, readwrite_shown r w n @ zeros (Suc n - length (readwrite_shown r w n)))"
proof -
  let ?R = "byte_measurement_text r" and ?W = "byte_measurement_text w"
  have first: "byte_measurement_string r (zeros (Suc n)) 0 n
      = Ret (length ?R, take (n - 1) ?R @ zeros (Suc n - min (n - 1) (length ?R)))"
    using snprintf_at_zeros [of n "Suc n" "[]" ?R] assms
    by (simp add: byte_measurement_string_def Let_def)
  consider "n \<le> length ?R" | "length ?R + 1 = n" | "length ?R + 1 < n" by linarith
  then show ?thesis
  proof cases
    case 1
    then have "\<not> length ?R \<le> n - 1" using assms by linarith
    then show ?thesis using first 1
      by (simp add: readwrite_byte_measurement_string_def readwrite_shown_def min_def)
  next
    case 2
    then have n: "n = Suc (length ?R)" by simp
    have slash: "store_at (?R @ zeros 2) (length ?R) [CHR ''/''] = Ret (?R @ ''/'' @ zeros 1)"
      using store_at_zeros [of ?R "''/''" 2] by simp
    show ?thesis using first slash unfolding n
      by (simp add: readwrite_byte_measurement_string_def readwrite_shown_def Let_def numeral_2_eq_2)
  next
    case 3
    then obtain j where n: "n = Suc (Suc (length ?R + j))" by (auto simp: less_iff_Suc_add)
    have slash: "store_at (?R @ zeros (Suc (Suc (Suc j)))) (length ?R) [CHR ''/'']
        = Ret (?R @ ''/'' @ zeros (Suc (Suc j)))"
      using store_at_zeros [of ?R "''/''" "Suc (Suc (Suc j))"] by simp
    have second: "snprintf_at (?R @ CHR ''/'' # CHR 0x00 # CHR 0x00 # zeros j) (Suc (length ?R)) (Suc j) ?W
        = Ret (?R @ CHR ''/'' # take j ?W @ zeros (Suc (Suc j) - min j (length ?W)))"
      using snprintf_at_zeros [of "Suc j" "Suc (Suc j)" "?R @ ''/''" ?W] by simp
    have m: "min (n - 1) (length ?R) = length ?R" "Suc n - length ?R = Suc (Suc (Suc j))"
      "take (n - 1) ?R = ?R" "n - Suc (length ?R) = Suc j" "Suc (length ?R) < n"
      by (simp_all add: n)
    have "byte_measurement_string w (?R @ CHR ''/'' # CHR 0x00 # CHR 0x00 # zeros j) (length ?R + 1) (Suc j)
        = Ret (length ?W, ?R @ CHR ''/'' # take j ?W @ zeros (Suc (Suc j) - min j (length ?W)))"
      using second by (simp add: byte_measurement_string_def Let_def)
    moreover have "readwrite_shown r w n = ?R @ CHR ''/'' # take j ?W"
      by (simp add: readwrite_shown_def n)
    moreover have "Suc n - length (?R @ CHR ''/'' # take j ?W) = Suc (Suc j) - min j (length ?W)"
      by (simp add: n)
    ultimately show ?thesis using first slash
      by (simp add: readwrite_byte_measurement_string_def Let_def m)
  qed
qed

lemma readwrite_buffer:
  assumes "0 \<le> r" "r < 2 ^ 63" "0 \<le> w" "w < 2 ^ 63" "0 < n"
  shows "\<exists>len buf. readwrite_byte_measurement_string r w (zeros (Suc n)) n = Ret (len, buf)
    \<and> length buf = Suc n \<and> last buf = CHR 0x00 \<and> cstr buf = readwrite_shown r w n
    \<and> length (cstr buf) \<le> n"
proof -
  let ?s = "readwrite_shown r w n"
  have "CHR 0x00 \<notin> set (byte_measurement_text r @ ''/'' @ byte_measurement_text w)"
    using byte_measurement_text_bounds [OF assms(1,2)] byte_measurement_text_bounds [OF assms(3,4)]
    by simp
  then have nul: "CHR 0x00 \<notin> set ?s"
    unfolding readwrite_shown_def by (metis in_set_takeD)
  have "length (take (if b then n else n - 1) xs) \<le> n" for b and xs :: string
    by (cases b) (simp_all add: min.coboundedI2)
  then have len: "length ?s \<le> n" unfolding readwrite_shown_def .
  then obtain k where k: "Suc n - length ?s = Suc k" by (cases "Suc n - length ?s") auto
  obtain out where "readwrite_byte_measurement_string r w (zeros (Suc n)) n = Ret (out, ?s @ zeros (Suc k))"
    using readwrite_zeroed [OF assms(5), of r w] unfolding k by blast
  moreover have "length (?s @ zeros (Suc k)) = Suc n" using k len by simp
  moreover have "last (?s @ zeros (Suc k)) = CHR 0x00"
    by (simp add: last_append del: replicate_Suc)
  moreover have "cstr (?s @ zeros (Suc k)) = ?s" by (rule cstr_zeros [OF nul])
  moreover have "length (cstr (?s @ zeros (Suc k))) \<le> n" using len by (simp only: cstr_zeros [OF nul])
  ultimately show ?thesis by blast
qed

lemma measurement_buffer:
  assumes "0 \<le> m" "m < 2 ^ 63" "0 < n"
  shows "\<exists>len buf. byte_measurement_string m (zeros (Suc n)) 0 n = Ret (len, buf)
    \<and> cstr buf = take (n - 1) (byte_measurement_text m)"
proof -
  let ?R = "byte_measurement_text m"
  have "byte_measurement_string m (zeros (Suc n)) 0 n
      = Ret (length ?R, take (n - 1) ?R @ zeros (Suc n - min (n - 1) (length ?R)))"
    using snprintf_at_zeros [of n "Suc n" "[]" ?R] assms(3)
    by (simp add: byte_measurement_string_def Let_def)
  moreover have "CHR 0x00 \<notin> set (take (n - 1) ?R)"
    using byte_measurement_text_bounds [OF assms(1,2)] by (meson in_set_takeD)
  ultimately show ?thesis by (simp add: cstr_zeros)
qed

section \<open>Properties\<close>

text \<open>C34: The amount shown is right. A byte count from 0 to \<open>2^63 - 1\<close> is printed as the exact quotient
  by its unit, rounded to hundredths (the two double roundings move it by less than a millionth of
  a hundredth), without exponent and without trailing zeros, followed by the unit, in at most nine
  characters.\<close>

theorem byte_measurement_amount:
  assumes "0 \<le> m" "m < 2 ^ 63"
  shows "\<exists>N. byte_measurement_text m = hundredths N @ snd (byte_unit m)
    \<and> \<bar>of_nat N - 100 * of_int m / of_int (fst (byte_unit m)) :: rat\<bar> \<le> 1 / 2 + 1 / 1000000
    \<and> length (byte_measurement_text m) \<le> 9"
  using byte_measurement_text_hundredths [OF assms] byte_measurement_text_bounds [OF assms] by metis

theorem byte_measurement_amount_witness:
  "byte_measurement_text 1536 = ''1.5kB'' \<and> (0 :: int) \<le> 1536 \<and> (1536 :: int) < 2 ^ 63"
proof -
  have u: "byte_unit 1536 = (1024, ''kB'')"
    by (simp add: byte_unit_def byte_units sdiv_ge_1_iff)
  obtain N where t: "byte_measurement_text 1536 = hundredths N @ ''kB''"
    and c: "\<bar>of_nat N - 150 :: rat\<bar> \<le> 1 / 2 + 1 / 1000000"
    using byte_measurement_amount [of 1536] by (auto simp: u)
  then have "(of_nat N :: rat) < 151" "(149 :: rat) < of_nat N" by linarith+
  then have "N = 150" by simp
  then show ?thesis
    by (simp add: t hundredths_def dec_nat.simps digit_char_def numeral_2_eq_2 strip_zeros_def point_def)
qed

text \<open>C35: Petabytes are never shown. \<open>BYTES_PER_EXABYTE\<close> is 1024 terabytes, the same as
  \<open>BYTES_PER_PETABYTE\<close>, so the petabyte branch is dead and every count from \<open>2^50\<close> up is labelled
  \<open>EB\<close>: one petabyte reads as one exabyte.\<close>

theorem byte_measurement_petabyte_as_exabyte:
  "snd (byte_unit m) \<noteq> ''PB'' \<and> (snd (byte_unit m) = ''EB'' \<longleftrightarrow> 2 ^ 50 \<le> m)
    \<and> byte_measurement_text (2 ^ 50) = ''1EB''"
proof -
  have a: "snd (byte_unit m) \<noteq> ''PB'' \<and> (snd (byte_unit m) = ''EB'' \<longleftrightarrow> 2 ^ 50 \<le> m)"
    by (simp add: byte_unit_def byte_units sdiv_ge_1_iff)
  have u: "byte_unit (2 ^ 50) = (2 ^ 50, ''EB'')"
    by (simp add: byte_unit_def byte_units sdiv_ge_1_iff)
  obtain N where t: "byte_measurement_text (2 ^ 50) = hundredths N @ ''EB''"
    and c: "\<bar>of_nat N - 100 * of_int (2 ^ 50) / of_int (2 ^ 50) :: rat\<bar> \<le> 1 / 2 + 1 / 1000000"
    using byte_measurement_text_hundredths [of "2 ^ 50"] unfolding u fst_conv snd_conv by auto
  from c have "\<bar>of_nat N - 100 :: rat\<bar> \<le> 1 / 2 + 1 / 1000000" by simp
  then have "(of_nat N :: rat) < 101" "(99 :: rat) < of_nat N" by linarith+
  then have "N = 100" by simp
  then have "byte_measurement_text (2 ^ 50) = ''1EB''"
    by (simp only: t hundredths_def) (simp add: dec_nat.simps digit_char_def numeral_2_eq_2 strip_zeros_def point_def)
  with a show ?thesis by blast
qed

text \<open>C33: The read/write column never leaves its buffer. Called as the screen calls it, with a zeroed
  array one byte longer than the size passed, \<open>readwrite_byte_measurement_string\<close> writes only inside
  the array, leaves its last byte zero, and the string there is the beginning of \<open>read/write\<close>: one
  byte short of the size, or the full size when the read part ends there (then the terminator inside
  the passed size is overwritten by the slash, and only the array's extra byte ends the string).\<close>

theorem readwrite_buffer_safe:
  assumes "0 \<le> r" "r < 2 ^ 63" "0 \<le> w" "w < 2 ^ 63" "0 < n"
  shows "\<exists>len buf. readwrite_byte_measurement_string r w (zeros (Suc n)) n = Ret (len, buf)
    \<and> length buf = Suc n \<and> last buf = CHR 0x00 \<and> cstr buf = readwrite_shown r w n"
  using readwrite_buffer [OF assms] by blast

theorem readwrite_buffer_safe_witness:
  "\<exists>len buf. readwrite_byte_measurement_string 0 5 (zeros (Suc 3)) 3 = Ret (len, buf) \<and> cstr buf = ''0B/''"
proof -
  have "\<exists>len buf. readwrite_byte_measurement_string 0 5 (zeros (Suc 3)) 3 = Ret (len, buf)
      \<and> length buf = Suc 3 \<and> last buf = CHR 0x00 \<and> cstr buf = readwrite_shown 0 5 3"
    by (rule readwrite_buffer_safe) simp_all
  moreover
  have u: "byte_unit 0 = (1, ''B'')" by (simp add: byte_unit_def byte_units sdiv_ge_1_iff)
  have h: "\<lfloor>1 / 2 :: rat\<rfloor> = 0" by (simp add: floor_eq_iff)
  have "byte_measurement_text 0 = ''0B''"
    by (simp add: u byte_measurement_text_def c_round_def fmt_g_def h)
  then have "readwrite_shown 0 5 3 = ''0B/''" by (simp add: readwrite_shown_def)
  ultimately show ?thesis by (simp only:) blast
qed

end
