(* ===== verification/Fiveman_Types.thy ===== *)
theory Fiveman_Types
  imports Fiveman_Prelude
begin

text \<open>
  The data of \<open>src/fiveman_types.h\<close> and of the head of \<open>src/fiveman_process_statistics_mac.c\<close>: enums
  are datatypes, structs are records, pointers that may be null are options. \<open>calloc\<close>ed structs are
  the \<open>zero_\<dots>\<close> values below: the first enum constant is 0, so a zeroed intent reads as
  \<open>INTENT_START\<close>.
\<close>

section \<open>Process table data\<close>

datatype FIVEMAN_PROCESS_CURRENT_ACTIVITY =
    FIVEMAN_PROCESS_STOPPED
  | FIVEMAN_PROCESS_RUNNING
  | FIVEMAN_PROCESS_STARTING_UP
  | FIVEMAN_PROCESS_SHUTTING_DOWN
  | FIVEMAN_PROCESS_UNKNOWN

text \<open>
  A cell of the instruction list. \<open>next\<close> is the address of the following cell; addresses are
  explained in \<open>Fiveman_Instruction\<close>.
\<close>

record fiveman_instruction =
  instr_name :: "string option"
  instr_exec :: "string option"
  instr_next :: "nat option"

datatype FIVEMAN_INTENT = INTENT_START | INTENT_SIG | INTENT_STOP | INTENT_NONE

record fiveman_process_intent =
  pi_intent :: FIVEMAN_INTENT
  pi_data :: int

record fiveman_process_statistics_sample =
  sample_time :: u64
  total_time :: u64
  cpu_usage :: u32
  memory_usage :: u64
  io_read_rate :: u64
  io_write_rate :: u64
  net_read_rate :: u64
  net_write_rate :: u64
  fs_read_rate :: u64
  fs_write_rate :: u64

text \<open>The two fields of \<open>struct stat\<close> that the sources read.\<close>

record file_stat =
  st_mtime :: int
  st_size :: int

section \<open>Sampling data\<close>

record io_record =
  block_size :: u32
  rec_start :: u64
  rec_type :: u32

record io_counter =
  cnt_start :: u64
  cnt_read :: u64
  cnt_write :: u64

text \<open>
  \<open>mac_sampling_data\<close>: the DTrace handles (\<open>dtp\<close>, \<open>prog\<close>, \<open>info\<close>, \<open>proc\<close>) are opaque pointers of
  libdtrace that are only passed back to it; they are not part of the record.
\<close>

record mac_sampling_data =
  ctx_fs :: io_counter
  ctx_net :: io_counter
  ctx_dev :: io_counter
  fiveman_sampled_task :: int

section \<open>The process state\<close>

record fiveman_process_state =
  ps_instruction :: fiveman_instruction
  ps_intent :: fiveman_process_intent
  ps_desired_intent :: fiveman_process_intent
  ps_sample :: fiveman_process_statistics_sample
  ps_desired_port :: int
  ps_pid :: int
  ps_host_read_fd :: int
  ps_child_write_fd :: int
  ps_last_state_change :: int
  ps_stdout :: "string option"
  ps_stdout_stat :: file_stat
  ps_stdout_paged_at :: int
  ps_stderr :: "string option"
  ps_stderr_stat :: file_stat
  ps_stderr_paged_at :: int
  ps_sample_ctxt :: "mac_sampling_data option"

type_synonym process_table = "fiveman_process_state list"

record fiveman_ncurses_screen_entry =
  en_state :: "nat option"   \<comment> \<open>the entry's row in the process table\<close>
  en_activity :: FIVEMAN_PROCESS_CURRENT_ACTIVITY
  en_pid :: int
  en_age :: int
  en_sample :: fiveman_process_statistics_sample
  en_stdout_active :: bool
  en_stderr_active :: bool

record fiveman_ncurses_screen_extents =
  name_size :: int
  state_size :: int
  pid_size :: int
  age_size :: int
  cpu_size :: int
  mem_size :: int
  net_size :: int
  io_size :: int
  fs_size :: int
  stdout_size :: int
  stderr_size :: int
  spacing_size :: int

type_synonym fiveman_command = string

section \<open>Zeroed memory\<close>

definition zero_intent :: fiveman_process_intent where
  "zero_intent = \<lparr> pi_intent = INTENT_START, pi_data = 0 \<rparr>"

definition zero_sample :: fiveman_process_statistics_sample where
  "zero_sample = \<lparr> sample_time = 0, total_time = 0, cpu_usage = 0, memory_usage = 0,
     io_read_rate = 0, io_write_rate = 0, net_read_rate = 0, net_write_rate = 0,
     fs_read_rate = 0, fs_write_rate = 0 \<rparr>"

definition zero_stat :: file_stat where
  "zero_stat = \<lparr> st_mtime = 0, st_size = 0 \<rparr>"

definition zero_counter :: io_counter where
  "zero_counter = \<lparr> cnt_start = 0, cnt_read = 0, cnt_write = 0 \<rparr>"

definition zero_sampling_data :: mac_sampling_data where
  "zero_sampling_data = \<lparr> ctx_fs = zero_counter, ctx_net = zero_counter, ctx_dev = zero_counter,
     fiveman_sampled_task = 0 \<rparr>"

definition zero_entry :: fiveman_ncurses_screen_entry where
  "zero_entry = \<lparr> en_state = None, en_activity = FIVEMAN_PROCESS_STOPPED, en_pid = 0, en_age = 0,
     en_sample = zero_sample, en_stdout_active = False, en_stderr_active = False \<rparr>"

end
