(* ===== verification/Fiveman_Instruction.thy ===== *)
theory Fiveman_Instruction
  imports Fiveman_Types
begin

text \<open>
  \<open>src/fiveman_instruction.c\<close> over an explicit store. The store is the list of all cells ever
  allocated; a cell's address is its index, a freed cell is \<open>None\<close>, and the null pointer is \<open>None\<close>
  of type \<open>nat option\<close>. \<open>calloc\<close> always finds memory here, so \<open>assert(ret != NULL)\<close> holds.
\<close>

type_synonym instr_heap = "fiveman_instruction option list"

definition zero_instruction :: fiveman_instruction where
  "zero_instruction = \<lparr> instr_name = None, instr_exec = None, instr_next = None \<rparr>"

definition fiveman_instruction_allocate :: "instr_heap \<Rightarrow> nat \<times> instr_heap" where
  "fiveman_instruction_allocate h = (length h, h @ [Some zero_instruction])"

definition load_instr :: "instr_heap \<Rightarrow> nat \<Rightarrow> fiveman_instruction res" where
  "load_instr h a =
     (if a < length h
      then (case h ! a of None \<Rightarrow> Fault (InvalidPointer ''instruction'') | Some c \<Rightarrow> Ret c)
      else Fault (InvalidPointer ''instruction''))"

text \<open>The number of live cells, which every \<open>free\<close> decreases.\<close>

definition live_cells :: "instr_heap \<Rightarrow> nat" where
  "live_cells h = length (filter (\<lambda>c. c \<noteq> None) h)"

lemma load_instr_Ret: "load_instr h a = Ret c \<longleftrightarrow> a < length h \<and> h ! a = Some c"
  by (auto simp: load_instr_def split: option.splits)

lemma live_cells_free:
  assumes "load_instr h a = Ret c"
  shows "live_cells h = Suc (live_cells (h[a := None]))"
proof -
  from assms have a: "a < length h" "h ! a = Some c" by (simp_all add: load_instr_Ret)
  have "live_cells h = live_cells (take a h @ Some c # drop (Suc a) h)"
    using a by (subst id_take_nth_drop [OF a(1)]) simp
  moreover from a have "h[a := None] = take a h @ None # drop (Suc a) h"
    by (simp add: upd_conv_take_nth_drop)
  ultimately show ?thesis by (simp add: live_cells_def)
qed

function fiveman_instruction_deallocate :: "instr_heap \<Rightarrow> nat option \<Rightarrow> instr_heap res" where
  "fiveman_instruction_deallocate h None = Ret h"
| "fiveman_instruction_deallocate h (Some a) =
     (case load_instr h a of
        Fault e \<Rightarrow> Fault e
      | Ret c \<Rightarrow> fiveman_instruction_deallocate (h[a := None]) (instr_next c))"
  by pat_completeness auto
termination
  by (relation "measure (\<lambda>(h, p). live_cells h)") (auto simp: live_cells_free)

text \<open>\<open>chain h p as\<close>: the list that starts at \<open>p\<close> runs through the live cells \<open>as\<close> and ends.\<close>

fun chain :: "instr_heap \<Rightarrow> nat option \<Rightarrow> nat list \<Rightarrow> bool" where
  "chain h p [] \<longleftrightarrow> p = None"
| "chain h p (a # as) \<longleftrightarrow> p = Some a \<and>
     (case load_instr h a of Ret c \<Rightarrow> chain h (instr_next c) as | Fault e \<Rightarrow> False)"

lemma chain_unique: "chain h p as \<Longrightarrow> chain h p bs \<Longrightarrow> as = bs"
proof (induction as arbitrary: p bs)
  case Nil
  then show ?case by (cases bs) auto
next
  case (Cons a as)
  then show ?case by (cases bs) (auto split: res.splits)
qed

lemma chain_append:
  "chain h p (as @ b # bs) \<Longrightarrow> chain h (Some b) (b # bs)"
  by (induction as arbitrary: p) (auto split: res.splits)

lemma chain_distinct: "chain h p as \<Longrightarrow> distinct as"
proof (rule ccontr)
  assume ch: "chain h p as" and "\<not> distinct as"
  then obtain xs ys zs y where as: "as = xs @ [y] @ ys @ [y] @ zs"
    using not_distinct_decomp by blast
  have "chain h (Some y) (y # ys @ y # zs)" using ch as chain_append [of h p xs y] by simp
  moreover have "chain h (Some y) (y # zs)" using ch as chain_append [of h p "xs @ y # ys" y] by simp
  ultimately have "y # ys @ y # zs = y # zs" by (rule chain_unique)
  then have "length (ys @ y # zs) = length zs" by simp
  then show False by simp
qed

lemma chain_live: "chain h p as \<Longrightarrow> a \<in> set as \<Longrightarrow> a < length h \<and> h ! a \<noteq> None"
  by (induction as arbitrary: p) (auto simp: load_instr_Ret split: res.splits)

lemma chain_free_other: "chain h p as \<Longrightarrow> a \<notin> set as \<Longrightarrow> chain (h[a := None]) p as"
  by (induction as arbitrary: p) (auto simp: load_instr_def split: res.splits if_splits option.splits)

text \<open>Every cell of the list is freed once and no other; no freed cell is read.\<close>

lemma deallocate_chain:
  "chain h p as \<Longrightarrow>
   fiveman_instruction_deallocate h p
     = Ret (map (\<lambda>a. if a \<in> set as then None else h ! a) [0..<length h])"
proof (induction as arbitrary: h p)
  case Nil
  then show ?case by (simp add: map_nth)
next
  case (Cons a as)
  then obtain c where p: "p = Some a" and c: "load_instr h a = Ret c"
    and ch: "chain h (instr_next c) as" by (auto split: res.splits)
  have "a \<notin> set as" using chain_distinct [OF Cons.prems] by simp
  then have "chain (h[a := None]) (instr_next c) as" using ch by (rule chain_free_other [rotated])
  from Cons.IH [OF this] have
    "fiveman_instruction_deallocate h p
       = Ret (map (\<lambda>b. if b \<in> set as then None else h[a := None] ! b) [0..<length h])"
    by (simp add: p c)
  then show ?case
    by (auto simp: p nth_list_update)
qed

end
