(* ===== verification/Fiveman_Kernel.thy ===== *)
theory Fiveman_Kernel
  imports Fiveman_Types "HOL-Library.Sublist"
begin

text \<open>
  The boundary of the program. The operating system, libdtrace, the Mach and Security frameworks
  and ncurses are not part of the sources: they are a parameter, the record \<open>kernel\<close>, whose fields
  give the answer to each call as a function of everything the program has called so far. Nothing
  is assumed of the answers here; a lemma that needs documented behaviour states it as a
  hypothesis. Each call is recorded in the trace of the \<open>world\<close>, which also holds the program's
  global variables, so that a property can speak of the calls a function makes.
\<close>

section \<open>Calls\<close>

definition SIGINT :: int where "SIGINT = 2"
definition SIGKILL :: int where "SIGKILL = 9"
definition SIGPIPE :: int where "SIGPIPE = 13"
definition SIGTERM :: int where "SIGTERM = 15"
definition SIGCHLD :: int where "SIGCHLD = 20"
definition EACCES :: int where "EACCES = 13"

definition STDIN_FILENO :: int where "STDIN_FILENO = 0"
definition STDOUT_FILENO :: int where "STDOUT_FILENO = 1"
definition STDERR_FILENO :: int where "STDERR_FILENO = 2"

datatype open_flag = O_RDONLY | O_WRONLY | O_APPEND | O_CREAT

datatype file_action =
    Addopen int string "open_flag list" nat
  | Addinherit_np int

datatype spawn_flag =
    POSIX_SPAWN_CLOEXEC_DEFAULT | POSIX_SPAWN_SETSIGDEF
  | POSIX_SPAWN_RESETIDS | POSIX_SPAWN_SETPGROUP

text \<open>
  The arguments of \<open>posix_spawn\<close>: \<open>sp_sigdefault\<close> lists the signals added to the set (the
  automatic variable it is built in is not cleared first, so the set may hold others as well).
\<close>

record spawn_request =
  sp_path :: string
  sp_argv :: "string list"
  sp_environ :: "string list"
  sp_flags :: "spawn_flag list"
  sp_sigdefault :: "int list"
  sp_pgroup :: "int option"
  sp_actions :: "file_action list"

datatype mac_call =
    AuthorizationCreate
  | AuthorizationCopyRights
  | AuthorizationCreateWithRights
  | Dtrace_open
  | Dtrace_setopt string string
  | Dtrace_proc_grab int
  | Dtrace_program_strcompile "string list"
  | Dtrace_program_exec
  | Dtrace_go
  | Dtrace_proc_continue
  | Dtrace_proc_release
  | Dtrace_stop
  | Dtrace_close
  | Dtrace_status

text \<open>What \<open>dtrace_work\<close> hands to the consumer: the record description, if any, and the data.\<close>

datatype dtrace_act = DTRACEACT_DIFEXPR | DTRACEACT_EXIT | DTRACEACT_OTHER

record dtrace_recdesc =
  dtrd_action :: dtrace_act
  dtrd_size :: u32

type_synonym probe = "dtrace_recdesc option \<times> io_record"

record timeval =
  tv_sec :: int
  tv_usec :: int

record task_basic_info =
  bi_user_time :: timeval
  bi_system_time :: timeval
  bi_resident_size :: u64

record task_thread_times_info =
  tt_user_time :: timeval
  tt_system_time :: timeval

datatype curses_op =
    Initscr | Keypad bool | Nonl | Nocbreak | Noecho | Raw | Halfdelay int | Curs_set bool
  | Move int int | Addstr string | Clrtoeol | Clear | Refresh | Attron_bold | Attroff_bold
  | Def_prog_mode | Reset_prog_mode | Endwin

datatype sig_handler = SIG_DFL | SIG_IGN | Handle_sigchld | Handle_sigint | Handle_childkill

datatype sa_flag = SA_RESETHAND | SA_RESTART | SA_NOCLDSTOP | SA_NOCLDWAIT

text \<open>\<open>sa_flags\<close> is \<open>None\<close> when the field is passed without having been set.\<close>

record sigaction =
  sa_handler :: sig_handler
  sa_flags :: "sa_flag list option"

datatype event =
    Time int
  | Gettimeofday timeval
  | Kill int int bool
  | Killpg int int
  | Waitpid int int
  | Spawn spawn_request "int + int"
  | Stat "string option" "int + file_stat"
  | Unlink "string option"
  | Mktemp string string
  | Mac mac_call bool
  | Task_for_pid int "int option"
  | Dtrace_work "probe list"
  | Task_info int
  | Sigaction int bool
  | Curses curses_op
  | Getmaxyx "int \<times> int"
  | Getch int
  | Mutex_lock
  | Mutex_unlock
  | Fork int
  | Pipe "int \<times> int"
  | Close int
  | Select int int
  | Read_fd int "u8 list option"
  | Write_fd int "u8 list"
  | Tcsetpgrp int int
  | Execlp string "string option"
  | Printf
  | Access string bool
  | Set_egid int
  | Set_euid int
  | Pthread_create int
  | Pthread_join
  | Sleep int
  | Perror

record kernel =
  k_environ :: "string list"
  k_time :: "event list \<Rightarrow> int"
  k_gettimeofday :: "event list \<Rightarrow> timeval"
  k_kill :: "event list \<Rightarrow> int \<Rightarrow> int \<Rightarrow> bool"
  k_waitpid :: "event list \<Rightarrow> int \<Rightarrow> int"
  k_spawn :: "event list \<Rightarrow> spawn_request \<Rightarrow> int + int"
  k_stat :: "event list \<Rightarrow> string option \<Rightarrow> int + file_stat"
  k_mktemp :: "event list \<Rightarrow> string \<Rightarrow> string"
  k_mac :: "event list \<Rightarrow> mac_call \<Rightarrow> bool"
  k_task_for_pid :: "event list \<Rightarrow> int \<Rightarrow> int option"
  k_dtrace_work :: "event list \<Rightarrow> probe list"
  k_task_basic_info :: "event list \<Rightarrow> int \<Rightarrow> task_basic_info option"
  k_task_thread_times :: "event list \<Rightarrow> int \<Rightarrow> task_thread_times_info option"
  k_lround_nonfinite :: int
  k_sigaction :: "event list \<Rightarrow> int \<Rightarrow> bool"
  k_getmaxyx :: "event list \<Rightarrow> int \<times> int"
  k_getch :: "event list \<Rightarrow> int"
  k_sigint :: "event list \<Rightarrow> bool"
  k_fork :: "event list \<Rightarrow> int"
  k_pipe :: "event list \<Rightarrow> int \<times> int"
  k_select :: "event list \<Rightarrow> int \<Rightarrow> int"
  k_read :: "event list \<Rightarrow> int \<Rightarrow> nat \<Rightarrow> u8 list option"
  k_access :: "event list \<Rightarrow> string \<Rightarrow> bool"
  k_pthread :: "event list \<Rightarrow> int"
  k_errno :: "event list \<Rightarrow> int"
  k_fuel :: nat

text \<open>
  The program's globals: \<open>myAuthorizationRef\<close> is whether that static is non-null; \<open>exit_fiveman\<close>
  and \<open>exit_fiveman_immediately\<close> belong to \<open>src/ncurses_screen.c\<close>; \<open>dispositions\<close> are the signal
  actions installed. \<open>application_state_table\<close> of \<open>src/fiveman_process_state_table.c\<close> is either null or
  points to the table of \<open>main\<close>, whose entries are never freed.
\<close>

datatype table_pointer = Null_table | Live_table

record world =
  trace :: "event list"
  myAuthorizationRef :: bool
  exit_fiveman :: bool
  exit_fiveman_immediately :: bool
  dispositions :: "int \<Rightarrow> sigaction"
  application_state_table :: table_pointer

type_synonym 'a eff = "(world, 'a) io"

section \<open>Issuing a call\<close>

definition sys_call :: "(event list \<Rightarrow> 'a) \<Rightarrow> ('a \<Rightarrow> event) \<Rightarrow> 'a eff" where
  "sys_call answer ev =
     (\<lambda>w. let a = answer (trace w) in (Ret a, w\<lparr>trace := trace w @ [ev a]\<rparr>))"

definition sys_note :: "event \<Rightarrow> unit eff" where
  "sys_note ev = sys_call (\<lambda>_. ()) (\<lambda>_. ev)"

definition sys_time :: "kernel \<Rightarrow> int eff" where
  "sys_time k = sys_call (k_time k) Time"

definition sys_gettimeofday :: "kernel \<Rightarrow> timeval eff" where
  "sys_gettimeofday k = sys_call (k_gettimeofday k) Gettimeofday"

definition sys_kill :: "kernel \<Rightarrow> int \<Rightarrow> int \<Rightarrow> bool eff" where
  "sys_kill k pid sig = sys_call (\<lambda>h. k_kill k h pid sig) (Kill pid sig)"

definition sys_killpg :: "int \<Rightarrow> int \<Rightarrow> unit eff" where
  "sys_killpg pid sig = sys_note (Killpg pid sig)"

definition sys_waitpid :: "kernel \<Rightarrow> int \<Rightarrow> int eff" where
  "sys_waitpid k pid = sys_call (\<lambda>h. k_waitpid k h pid) (Waitpid pid)"

definition sys_spawn :: "kernel \<Rightarrow> spawn_request \<Rightarrow> (int + int) eff" where
  "sys_spawn k req = sys_call (\<lambda>h. k_spawn k h req) (Spawn req)"

definition sys_stat :: "kernel \<Rightarrow> string option \<Rightarrow> (int + file_stat) eff" where
  "sys_stat k path = sys_call (\<lambda>h. k_stat k h path) (Stat path)"

definition sys_mktemp :: "kernel \<Rightarrow> string \<Rightarrow> string eff" where
  "sys_mktemp k tmpl = sys_call (\<lambda>h. k_mktemp k h tmpl) (Mktemp tmpl)"

definition sys_fork :: "kernel \<Rightarrow> int eff" where
  "sys_fork k = sys_call (k_fork k) Fork"

definition sys_pipe :: "kernel \<Rightarrow> (int \<times> int) eff" where
  "sys_pipe k = sys_call (k_pipe k) Pipe"

definition sys_select :: "kernel \<Rightarrow> int \<Rightarrow> int eff" where
  "sys_select k fd = sys_call (\<lambda>h. k_select k h fd) (Select fd)"

text \<open>\<open>read\<close> of at most \<open>n\<close> bytes; \<open>None\<close> is the result -1.\<close>

definition sys_read :: "kernel \<Rightarrow> int \<Rightarrow> nat \<Rightarrow> u8 list option eff" where
  "sys_read k fd n = sys_call (\<lambda>h. map_option (take n) (k_read k h fd n)) (Read_fd fd)"

definition sys_access :: "kernel \<Rightarrow> string \<Rightarrow> bool eff" where
  "sys_access k path = sys_call (\<lambda>h. k_access k h path) (Access path)"

definition sys_mac :: "kernel \<Rightarrow> mac_call \<Rightarrow> bool eff" where
  "sys_mac k c = sys_call (\<lambda>h. k_mac k h c) (Mac c)"

definition curses :: "curses_op \<Rightarrow> unit eff" where
  "curses op = sys_note (Curses op)"

text \<open>\<open>getenv\<close>: the first entry of the environment that starts with \<open>name=\<close>.\<close>

fun getenv :: "string list \<Rightarrow> string \<Rightarrow> string option" where
  "getenv [] name = None"
| "getenv (e # es) name =
     (if prefix (name @ ''='') e then Some (drop (Suc (length name)) e) else getenv es name)"

text \<open>Dereferencing a pointer that may be null.\<close>

definition deref :: "string \<Rightarrow> 'a option \<Rightarrow> 'a eff" where
  "deref what p = (case p of None \<Rightarrow> io_fault (NullPointer what) | Some x \<Rightarrow> io_return x)"

lemmas sys_defs = sys_call_def sys_note_def sys_time_def sys_gettimeofday_def sys_kill_def
  sys_killpg_def sys_waitpid_def sys_spawn_def sys_stat_def sys_mktemp_def sys_mac_def curses_def
  sys_fork_def sys_pipe_def sys_select_def sys_read_def sys_access_def

lemma sys_run [io_simps]:
  "sys_note ev w = (Ret (), w\<lparr>trace := trace w @ [ev]\<rparr>)"
  "sys_time k w = (Ret (k_time k (trace w)), w\<lparr>trace := trace w @ [Time (k_time k (trace w))]\<rparr>)"
  "sys_gettimeofday k w =
     (Ret (k_gettimeofday k (trace w)),
      w\<lparr>trace := trace w @ [Gettimeofday (k_gettimeofday k (trace w))]\<rparr>)"
  "sys_kill k p s w =
     (Ret (k_kill k (trace w) p s), w\<lparr>trace := trace w @ [Kill p s (k_kill k (trace w) p s)]\<rparr>)"
  "sys_killpg p s w = (Ret (), w\<lparr>trace := trace w @ [Killpg p s]\<rparr>)"
  "sys_waitpid k p w =
     (Ret (k_waitpid k (trace w) p), w\<lparr>trace := trace w @ [Waitpid p (k_waitpid k (trace w) p)]\<rparr>)"
  "sys_spawn k q w =
     (Ret (k_spawn k (trace w) q), w\<lparr>trace := trace w @ [Spawn q (k_spawn k (trace w) q)]\<rparr>)"
  "sys_stat k f w =
     (Ret (k_stat k (trace w) f), w\<lparr>trace := trace w @ [Stat f (k_stat k (trace w) f)]\<rparr>)"
  "sys_mktemp k tm w =
     (Ret (k_mktemp k (trace w) tm), w\<lparr>trace := trace w @ [Mktemp tm (k_mktemp k (trace w) tm)]\<rparr>)"
  "sys_mac k c w =
     (Ret (k_mac k (trace w) c), w\<lparr>trace := trace w @ [Mac c (k_mac k (trace w) c)]\<rparr>)"
  "curses cop w = (Ret (), w\<lparr>trace := trace w @ [Curses cop]\<rparr>)"
  "sys_fork k w = (Ret (k_fork k (trace w)), w\<lparr>trace := trace w @ [Fork (k_fork k (trace w))]\<rparr>)"
  "sys_pipe k w = (Ret (k_pipe k (trace w)), w\<lparr>trace := trace w @ [Pipe (k_pipe k (trace w))]\<rparr>)"
  "sys_select k fd w =
     (Ret (k_select k (trace w) fd), w\<lparr>trace := trace w @ [Select fd (k_select k (trace w) fd)]\<rparr>)"
  "sys_read k fd n w =
     (Ret (map_option (take n) (k_read k (trace w) fd n)),
      w\<lparr>trace := trace w @ [Read_fd fd (map_option (take n) (k_read k (trace w) fd n))]\<rparr>)"
  "sys_access k path w =
     (Ret (k_access k (trace w) path), w\<lparr>trace := trace w @ [Access path (k_access k (trace w) path)]\<rparr>)"
  by (simp_all add: sys_defs Let_def)

lemma deref_run [io_simps]:
  "deref s None w = (Fault (NullPointer s), w)"
  "deref s (Some x) w = (Ret x, w)"
  by (simp_all add: deref_def io_run)

text \<open>
  A loop that ends when the operating system answers in a certain way is given \<open>k_fuel\<close> rounds;
  running out of them is the fault \<open>NeverReturns\<close>.
\<close>

fun retry :: "string \<Rightarrow> bool eff \<Rightarrow> nat \<Rightarrow> unit eff" where
  "retry what again 0 = io_fault (NeverReturns what)"
| "retry what again (Suc n) =
     io_bind again (\<lambda>b. if b then retry what again n else io_return ())"

lemma retry_Ret: "retry s again n w = (Ret (), w') \<Longrightarrow> \<exists>w1. again w1 = (Ret False, w')"
  by (induction n arbitrary: w) (auto simp: io_run split: prod.splits res.splits if_splits)

lemma retry_stuck:
  "(\<And>w. \<exists>w'. again w = (Ret True, w')) \<Longrightarrow> \<exists>w'. retry s again n w = (Fault (NeverReturns s), w')"
proof (induction n arbitrary: w)
  case (Suc n)
  obtain w1 where "again w = (Ret True, w1)" using Suc.prems by blast
  with Suc.IH [OF Suc.prems, of w1] show ?case by (simp add: io_run)
qed (simp add: io_run)

section \<open>Which calls a computation makes\<close>

text \<open>
  \<open>emits P m\<close>: whatever the outcome of \<open>m\<close>, every call it adds to the trace satisfies \<open>P\<close>. The rules
  follow the structure of a computation, so that a proof is one \<open>auto intro!: emits_intros\<close>.
\<close>

definition emits :: "(event \<Rightarrow> bool) \<Rightarrow> 'a eff \<Rightarrow> bool" where
  "emits P m \<longleftrightarrow>
     (\<forall>w r w'. m w = (r, w') \<longrightarrow> (\<exists>es. trace w' = trace w @ es \<and> list_all P es))"

named_theorems emits_intros \<open>rules that derive which calls a computation makes\<close>

lemma emitsD: "emits P m \<Longrightarrow> m w = (r, w') \<Longrightarrow> \<exists>es. trace w' = trace w @ es \<and> list_all P es"
  by (auto simp: emits_def)

lemma emits_return [emits_intros]: "emits P (io_return x)"
  by (auto simp: emits_def io_run)

lemma emits_fault [emits_intros]: "emits P (io_fault e)"
  by (auto simp: emits_def io_run)

lemma emits_assert [emits_intros]: "emits P (io_assert s b)"
  by (auto simp: emits_def io_run)

lemma emits_res [emits_intros]: "emits P (io_res r)"
  by (auto simp: emits_def io_run)

lemma emits_get [emits_intros]: "emits P (io_get f)"
  by (auto simp: emits_def io_run)

lemma emits_modify [emits_intros]: "(\<And>w. trace (f w) = trace w) \<Longrightarrow> emits P (io_modify f)"
  by (auto simp: emits_def io_run)

lemma emits_deref [emits_intros]: "emits P (deref s p)"
  by (cases p) (auto simp: emits_def io_simps)

lemma emits_bind [emits_intros]:
  assumes m: "emits P m" and f: "\<And>x. emits P (f x)"
  shows "emits P (io_bind m f)"
  unfolding emits_def
proof (intro allI impI)
  fix w r w' assume run: "io_bind m f w = (r, w')"
  obtain r1 w1 where m1: "m w = (r1, w1)" by (cases "m w")
  then obtain es1 where e1: "trace w1 = trace w @ es1" "list_all P es1" using emitsD [OF m] by blast
  show "\<exists>es. trace w' = trace w @ es \<and> list_all P es"
  proof (cases r1)
    case (Ret x)
    with run m1 have "f x w1 = (r, w')" by (simp add: io_run)
    then obtain es2 where "trace w' = trace w1 @ es2" "list_all P es2" using emitsD [OF f] by blast
    with e1 show ?thesis by (intro exI [of _ "es1 @ es2"]) simp
  next
    case (Fault e)
    with run m1 e1 show ?thesis by (auto simp: io_run)
  qed
qed

lemma emits_then [emits_intros]: "emits P m \<Longrightarrow> emits P n \<Longrightarrow> emits P (io_then m n)"
  unfolding io_then_def by (rule emits_bind)

lemma emits_if [emits_intros]: "(b \<Longrightarrow> emits P m) \<Longrightarrow> (\<not> b \<Longrightarrow> emits P n) \<Longrightarrow> emits P (if b then m else n)"
  by simp

lemma emits_when [emits_intros]: "(b \<Longrightarrow> emits P m) \<Longrightarrow> emits P (io_when b m)"
  by (simp add: io_when_def emits_return)

lemma emits_sys_call [emits_intros]: "(\<And>a. P (ev a)) \<Longrightarrow> emits P (sys_call ans ev)"
  by (auto simp: emits_def sys_call_def Let_def)

lemma emits_sys [emits_intros]:
  "P ev \<Longrightarrow> emits P (sys_note ev)"
  "(\<And>t. P (Time t)) \<Longrightarrow> emits P (sys_time k)"
  "(\<And>t. P (Gettimeofday t)) \<Longrightarrow> emits P (sys_gettimeofday k)"
  "(\<And>b. P (Kill p s b)) \<Longrightarrow> emits P (sys_kill k p s)"
  "P (Killpg p s) \<Longrightarrow> emits P (sys_killpg p s)"
  "(\<And>r. P (Waitpid p r)) \<Longrightarrow> emits P (sys_waitpid k p)"
  "(\<And>r. P (Spawn q r)) \<Longrightarrow> emits P (sys_spawn k q)"
  "(\<And>r. P (Stat f r)) \<Longrightarrow> emits P (sys_stat k f)"
  "(\<And>r. P (Mktemp t r)) \<Longrightarrow> emits P (sys_mktemp k t)"
  "(\<And>r. P (Mac c r)) \<Longrightarrow> emits P (sys_mac k c)"
  "P (Curses cop) \<Longrightarrow> emits P (curses cop)"
  "(\<And>r. P (Fork r)) \<Longrightarrow> emits P (sys_fork k)"
  "(\<And>r. P (Pipe r)) \<Longrightarrow> emits P (sys_pipe k)"
  "(\<And>r. P (Select fd r)) \<Longrightarrow> emits P (sys_select k fd)"
  "(\<And>r. P (Read_fd fd r)) \<Longrightarrow> emits P (sys_read k fd n)"
  "(\<And>r. P (Access path r)) \<Longrightarrow> emits P (sys_access k path)"
  by (auto simp: emits_def sys_defs Let_def)

lemma emits_walk [emits_intros]:
  assumes "\<And>p. p \<in> set ps \<Longrightarrow> emits P (f p)"
  shows "emits P (walk f ps)"
  using assms by (induction ps) (auto intro!: emits_intros)

lemma emits_retry [emits_intros]: "emits P again \<Longrightarrow> emits P (retry s again n)"
  by (induction n) (auto intro!: emits_intros)

lemma emits_mono: "emits P m \<Longrightarrow> (\<And>e. P e \<Longrightarrow> Q e) \<Longrightarrow> emits Q m"
  unfolding emits_def list_all_iff by meson

section \<open>Which globals a computation leaves alone\<close>

definition keeps :: "(world \<Rightarrow> 'b) \<Rightarrow> 'a eff \<Rightarrow> bool" where
  "keeps f m \<longleftrightarrow> (\<forall>w r w'. m w = (r, w') \<longrightarrow> f w' = f w)"

named_theorems keeps_intros \<open>rules that derive which globals a computation leaves alone\<close>

lemma keepsD: "keeps f m \<Longrightarrow> m w = (r, w') \<Longrightarrow> f w' = f w"
  by (auto simp: keeps_def)

lemma keeps_basic [keeps_intros]:
  "keeps f (io_return x)" "keeps f (io_fault e)" "keeps f (io_assert s b)" "keeps f (io_get g)" "keeps f (io_res r)"
  by (auto simp: keeps_def io_run)

lemma keeps_modify [keeps_intros]: "(\<And>w. f (g w) = f w) \<Longrightarrow> keeps f (io_modify g)"
  by (auto simp: keeps_def io_run)

lemma keeps_deref [keeps_intros]: "keeps f (deref s p)"
  by (cases p) (auto simp: keeps_def io_simps)

lemma keeps_bind [keeps_intros]: "keeps f m \<Longrightarrow> (\<And>x. keeps f (g x)) \<Longrightarrow> keeps f (io_bind m g)"
  unfolding keeps_def by (auto simp: io_run split: prod.splits res.splits)

lemma keeps_then [keeps_intros]: "keeps f m \<Longrightarrow> keeps f n \<Longrightarrow> keeps f (io_then m n)"
  unfolding io_then_def by (rule keeps_bind)

lemma keeps_if [keeps_intros]: "(b \<Longrightarrow> keeps f m) \<Longrightarrow> (\<not> b \<Longrightarrow> keeps f n) \<Longrightarrow> keeps f (if b then m else n)"
  by simp

lemma keeps_when [keeps_intros]: "(b \<Longrightarrow> keeps f m) \<Longrightarrow> keeps f (io_when b m)"
  by (simp add: io_when_def keeps_intros)

lemma keeps_retry [keeps_intros]: "keeps f again \<Longrightarrow> keeps f (retry s again n)"
  by (induction n) (auto intro!: keeps_intros)

lemma keeps_walk [keeps_intros]: "(\<And>p. p \<in> set ps \<Longrightarrow> keeps f (g p)) \<Longrightarrow> keeps f (walk g ps)"
  by (induction ps) (auto intro!: keeps_intros)

lemma keeps_sys_call: "(\<And>w t. f (w\<lparr>trace := t\<rparr>) = f w) \<Longrightarrow> keeps f (sys_call ans ev)"
  by (auto simp: keeps_def sys_call_def Let_def)

text \<open>A global variable that is not the record of the calls: no call changes it.\<close>

locale global_variable =
  fixes f :: "world \<Rightarrow> 'b"
  assumes trace_kept [simp]: "f (w\<lparr>trace := t\<rparr>) = f w"
begin

lemma keeps_calls [keeps_intros]:
  "keeps f (sys_call ans ev)" "keeps f (sys_note e)" "keeps f (sys_time k)" "keeps f (sys_gettimeofday k)"
  "keeps f (sys_kill k p s)" "keeps f (sys_killpg p s)" "keeps f (sys_waitpid k p)" "keeps f (sys_spawn k q)"
  "keeps f (sys_stat k path)" "keeps f (sys_mac k c)" "keeps f (sys_select k fd)" "keeps f (sys_read k fd n)"
  "keeps f (curses cop)"
  by (simp_all add: keeps_sys_call sys_note_def sys_time_def sys_gettimeofday_def sys_kill_def sys_killpg_def
      sys_waitpid_def sys_spawn_def sys_stat_def sys_mac_def sys_select_def sys_read_def curses_def)

end

section \<open>A concrete kernel\<close>

text \<open>
  An operating system and an initial world to run the model on: calls succeed, the clock stands
  at 1000, no process answers a probe and every descriptor is readable.
\<close>

definition quiet_kernel :: kernel where
  "quiet_kernel = \<lparr> k_environ = [''HOME=/root'', ''PATH=/bin'', ''LANG=C''], k_time = (\<lambda>_. 1000),
     k_gettimeofday = (\<lambda>_. \<lparr> tv_sec = 1000, tv_usec = 0 \<rparr>), k_kill = (\<lambda>_ _ _. False),
     k_waitpid = (\<lambda>_ _. - 1), k_spawn = (\<lambda>_ _. Inr 7), k_stat = (\<lambda>_ _. Inr zero_stat),
     k_mktemp = (\<lambda>_ t. t), k_mac = (\<lambda>_ _. True), k_task_for_pid = (\<lambda>_ _. Some 3),
     k_dtrace_work = (\<lambda>_. []), k_task_basic_info = (\<lambda>_ _. None), k_task_thread_times = (\<lambda>_ _. None),
     k_lround_nonfinite = 0, k_sigaction = (\<lambda>_ _. True), k_getmaxyx = (\<lambda>_. (24, 80)),
     k_getch = (\<lambda>_. 0), k_sigint = (\<lambda>_. False), k_fork = (\<lambda>_. 9), k_pipe = (\<lambda>_. (3, 4)), k_select = (\<lambda>_ _. 1),
     k_read = (\<lambda>_ _ _. Some [49]), k_access = (\<lambda>_ _. True), k_pthread = (\<lambda>_. 0), k_errno = (\<lambda>_. 2),
     k_fuel = Suc (Suc (Suc 0)) \<rparr>"

definition start_world :: world where
  "start_world = \<lparr> trace = [], myAuthorizationRef = False, exit_fiveman = False,
     exit_fiveman_immediately = False,
     dispositions = (\<lambda>_. \<lparr> sa_handler = SIG_DFL, sa_flags = Some [] \<rparr>),
     application_state_table = Null_table \<rparr>"

end
