(* ===== verification/Fiveman_Statistics.thy ===== *)
theory Fiveman_Statistics
  imports Fiveman_Kernel Fiveman_Double
begin

text \<open>
  \<open>src/fiveman_process_statistics_mac.c\<close>: attaching and detaching the DTrace sampler, counting the
  records it delivers and computing a sample from the counters, the clock and the task's times. The
  last part states what the rest of the program relies on of a sampling backend
  (\<open>src/fiveman_process_statistics.h\<close>) as a locale, and shows that this file provides it.
\<close>

section \<open>Time\<close>

definition kMicrosecondsPerSecond :: int where "kMicrosecondsPerSecond = 1000000"

definition TimeValToMicroseconds :: "timeval \<Rightarrow> u64" where
  "TimeValToMicroseconds tv = word_of_int (tv_sec tv * kMicrosecondsPerSecond + tv_usec tv)"

text \<open>The macro \<open>timeradd\<close> of \<open>sys/time.h\<close>.\<close>

definition timeradd :: "timeval \<Rightarrow> timeval \<Rightarrow> timeval" where
  "timeradd a b =
     (let s = tv_sec a + tv_sec b; u = tv_usec a + tv_usec b
      in if 1000000 \<le> u then \<lparr> tv_sec = s + 1, tv_usec = u - 1000000 \<rparr>
         else \<lparr> tv_sec = s, tv_usec = u \<rparr>)"

section \<open>Counting records\<close>

definition IO_RECORD_DEV_READ :: u32 where "IO_RECORD_DEV_READ = 1"
definition IO_RECORD_DEV_WRITE :: u32 where "IO_RECORD_DEV_WRITE = 2"
definition IO_RECORD_FS_READ :: u32 where "IO_RECORD_FS_READ = 3"
definition IO_RECORD_FS_WRITE :: u32 where "IO_RECORD_FS_WRITE = 4"
definition IO_RECORD_NET_READ :: u32 where "IO_RECORD_NET_READ = 5"
definition IO_RECORD_NET_WRITE :: u32 where "IO_RECORD_NET_WRITE = 6"

lemmas io_record_types = IO_RECORD_DEV_READ_def IO_RECORD_DEV_WRITE_def IO_RECORD_FS_READ_def
  IO_RECORD_FS_WRITE_def IO_RECORD_NET_READ_def IO_RECORD_NET_WRITE_def

datatype dtrace_consume = DTRACE_CONSUME_NEXT | DTRACE_CONSUME_THIS

definition add_read :: "u32 \<Rightarrow> io_counter \<Rightarrow> io_counter" where
  "add_read n c = c\<lparr>cnt_read := cnt_read c + ucast n\<rparr>"

definition add_write :: "u32 \<Rightarrow> io_counter \<Rightarrow> io_counter" where
  "add_write n c = c\<lparr>cnt_write := cnt_write c + ucast n\<rparr>"

definition count_record :: "io_record \<Rightarrow> mac_sampling_data \<Rightarrow> mac_sampling_data" where
  "count_record r ctxt =
     (if rec_type r = IO_RECORD_DEV_READ then ctxt\<lparr>ctx_dev := add_read (block_size r) (ctx_dev ctxt)\<rparr>
      else if rec_type r = IO_RECORD_DEV_WRITE then ctxt\<lparr>ctx_dev := add_write (block_size r) (ctx_dev ctxt)\<rparr>
      else if rec_type r = IO_RECORD_FS_READ then ctxt\<lparr>ctx_fs := add_read (block_size r) (ctx_fs ctxt)\<rparr>
      else if rec_type r = IO_RECORD_FS_WRITE then ctxt\<lparr>ctx_fs := add_write (block_size r) (ctx_fs ctxt)\<rparr>
      else if rec_type r = IO_RECORD_NET_READ then ctxt\<lparr>ctx_net := add_read (block_size r) (ctx_net ctxt)\<rparr>
      else if rec_type r = IO_RECORD_NET_WRITE then ctxt\<lparr>ctx_net := add_write (block_size r) (ctx_net ctxt)\<rparr>
      else ctxt)"

fun dorec :: "probe \<Rightarrow> mac_sampling_data \<Rightarrow> dtrace_consume \<times> mac_sampling_data" where
  "dorec (None, data) ctxt = (DTRACE_CONSUME_NEXT, ctxt)"
| "dorec (Some rec, data) ctxt =
     (let ctxt' = (if dtrd_action rec = DTRACEACT_DIFEXPR \<and> dtrd_size rec > 0
                   then count_record data ctxt else ctxt)
      in (if dtrd_action rec = DTRACEACT_EXIT then DTRACE_CONSUME_NEXT else DTRACE_CONSUME_THIS,
          ctxt'))"

text \<open>\<open>dtrace_work\<close> calls \<open>dorec\<close> on each record it delivers.\<close>

definition dorecs :: "probe list \<Rightarrow> mac_sampling_data \<Rightarrow> mac_sampling_data" where
  "dorecs ps ctxt = fold (\<lambda>p c. snd (dorec p c)) ps ctxt"

section \<open>Attaching and detaching\<close>

definition set_opt :: "kernel \<Rightarrow> string \<Rightarrow> string \<Rightarrow> int eff" where
  "set_opt k opt val =
     io_bind (sys_mac k (Dtrace_setopt opt val)) (\<lambda>ok.
     io_return (if ok then 0 else - 1))"

text \<open>All five options are set, whichever fails; the results are or-ed.\<close>

definition set_opts :: "kernel \<Rightarrow> int eff" where
  "set_opts k =
     io_bind (set_opt k ''strsize'' ''4096'') (\<lambda>a.
     io_bind (set_opt k ''bufsize'' ''64k'') (\<lambda>b.
     io_bind (set_opt k ''aggsize'' ''0k'') (\<lambda>c.
     io_bind (set_opt k ''specsize'' ''0k'') (\<lambda>d.
     io_bind (set_opt k ''arch'' ''x86_64'') (\<lambda>e.
     io_return (or a (or b (or c (or d e)))))))))"

definition authorize :: "kernel \<Rightarrow> unit eff" where
  "authorize k =
     io_bind (sys_mac k AuthorizationCreate) (\<lambda>ok.
     io_then (io_assert ''myStatus == errAuthorizationSuccess'' ok) (
     io_then (io_modify (\<lambda>w. w\<lparr>myAuthorizationRef := True\<rparr>)) (
     io_bind (sys_mac k AuthorizationCopyRights) (\<lambda>ok.
     io_then (io_assert ''myStatus == errAuthorizationSuccess'' ok) (
     io_bind (sys_mac k AuthorizationCreateWithRights) (\<lambda>ok.
     io_assert ''myStatus == errAuthorizationSuccess'' ok))))))"

definition sys_task_for_pid :: "kernel \<Rightarrow> int \<Rightarrow> int option eff" where
  "sys_task_for_pid k pid = sys_call (\<lambda>h. k_task_for_pid k h pid) (Task_for_pid pid)"

definition fiveman_init_sampling :: "kernel \<Rightarrow> fiveman_process_state \<Rightarrow> fiveman_process_state eff" where
  "fiveman_init_sampling k ps =
     io_bind (io_get myAuthorizationRef) (\<lambda>have_ref.
     io_then (io_when (\<not> have_ref) (authorize k)) (
     io_bind (sys_task_for_pid k (ps_pid ps)) (\<lambda>task.
     io_then (io_assert ''task_for_pid == KERN_SUCCESS'' (task \<noteq> None)) (
     io_bind (sys_mac k Dtrace_open) (\<lambda>dtp.
     io_then (io_assert ''ctxt->dtp != NULL'' dtp) (
     io_bind (set_opts k) (\<lambda>err.
     io_then (io_assert ''err != -1'' (err \<noteq> - 1)) (
     io_bind (sys_mac k (Dtrace_proc_grab (ps_pid ps))) (\<lambda>proc.
     io_then (io_assert ''ctxt->proc != NULL'' proc) (
     io_bind (sys_mac k (Dtrace_program_strcompile
                [''/bin/sh'', snprintf_text 1024 (dec_int (ps_pid ps))])) (\<lambda>prog.
     io_then (io_assert ''ctxt->prog != NULL'' prog) (
     io_bind (sys_mac k Dtrace_program_exec) (\<lambda>ok.
     io_then (io_assert ''err != -1'' ok) (
     io_bind (sys_mac k Dtrace_go) (\<lambda>ok.
     io_then (io_assert ''err != -1'' ok) (
     io_then (sys_mac k Dtrace_proc_continue) (
     io_return (ps\<lparr>ps_sample_ctxt :=
       Some (zero_sampling_data\<lparr>fiveman_sampled_task := the task\<rparr>)\<rparr>))))))))))))))))))"

definition fiveman_teardown_sampling :: "kernel \<Rightarrow> fiveman_process_state \<Rightarrow> fiveman_process_state eff" where
  "fiveman_teardown_sampling k ps =
     (case ps_sample_ctxt ps of
        None \<Rightarrow> io_return (ps\<lparr>ps_sample_ctxt := None\<rparr>)
      | Some ctxt \<Rightarrow>
          io_then (sys_mac k Dtrace_proc_continue) (
          io_then (sys_mac k Dtrace_proc_release) (
          io_then (sys_mac k Dtrace_stop) (
          io_then (sys_mac k Dtrace_close) (
          io_return (ps\<lparr>ps_sample_ctxt := None\<rparr>))))))"

section \<open>Sampling\<close>

definition sys_dtrace_work :: "kernel \<Rightarrow> probe list eff" where
  "sys_dtrace_work k = sys_call (k_dtrace_work k) Dtrace_work"

definition sys_task_basic_info :: "kernel \<Rightarrow> int \<Rightarrow> task_basic_info option eff" where
  "sys_task_basic_info k task = sys_call (\<lambda>h. k_task_basic_info k h task) (\<lambda>_. Task_info task)"

definition sys_task_thread_times :: "kernel \<Rightarrow> int \<Rightarrow> task_thread_times_info option eff" where
  "sys_task_thread_times k task = sys_call (\<lambda>h. k_task_thread_times k h task) (\<lambda>_. Task_info task)"

text \<open>
  \<open>lround\<close> of the percentage, stored in 32 bits; with no time between the samples the quotient is
  not finite and \<open>lround\<close> gives an unspecified value.
\<close>

definition cpu_percent :: "kernel \<Rightarrow> u64 \<Rightarrow> u64 \<Rightarrow> u32" where
  "cpu_percent k total_delta time_delta =
     word_of_int (if time_delta = 0 then k_lround_nonfinite k
       else c_round (dbl (dbl (dbl (of_int (uint total_delta)) / dbl (of_int (uint time_delta))) * 100)))"

definition task_total_time :: "task_basic_info \<Rightarrow> task_thread_times_info \<Rightarrow> u64" where
  "task_total_time bi tt =
     (let task_timeval = timeradd (tt_user_time tt) (tt_system_time tt);
          task_timeval = timeradd (bi_user_time bi) task_timeval;
          task_timeval = timeradd (bi_system_time bi) task_timeval
      in TimeValToMicroseconds task_timeval)"

definition sample_task ::
  "kernel \<Rightarrow> int \<Rightarrow> fiveman_process_statistics_sample \<Rightarrow> u64 \<Rightarrow>
   fiveman_process_statistics_sample \<Rightarrow> fiveman_process_statistics_sample eff" where
  "sample_task k task prev time_delta sample =
     io_bind (sys_task_basic_info k task) (\<lambda>bi. case bi of
       None \<Rightarrow> io_return sample
     | Some bi \<Rightarrow>
         io_bind (sys_task_thread_times k task) (\<lambda>tt. case tt of
           None \<Rightarrow> io_return sample
         | Some tt \<Rightarrow>
             let total = task_total_time bi tt;
                 sample1 = sample\<lparr>total_time := total\<rparr>;
                 sample2 = (if 0 < sample_time prev
                   then sample1\<lparr>cpu_usage := cpu_percent k (total - total_time prev) time_delta\<rparr>
                   else sample1)
             in io_return (sample2\<lparr>memory_usage := bi_resident_size bi\<rparr>)))"

definition seconds_between :: "u64 \<Rightarrow> u32" where
  "seconds_between time_delta =
     (let s = ucast (time_delta div 1000000) :: u32 in if s = 0 then 1 else s)"

definition set_rates :: "mac_sampling_data \<Rightarrow> u32 \<Rightarrow> fiveman_process_statistics_sample \<Rightarrow>
    fiveman_process_statistics_sample" where
  "set_rates ctxt secs sample = sample\<lparr>
     io_read_rate := cnt_read (ctx_dev ctxt) div ucast secs,
     io_write_rate := cnt_write (ctx_dev ctxt) div ucast secs,
     net_read_rate := cnt_read (ctx_net ctxt) div ucast secs,
     net_write_rate := cnt_write (ctx_net ctxt) div ucast secs,
     fs_read_rate := cnt_read (ctx_fs ctxt) div ucast secs,
     fs_write_rate := cnt_write (ctx_fs ctxt) div ucast secs \<rparr>"

definition reset_counter :: "io_counter \<Rightarrow> io_counter" where
  "reset_counter c = c\<lparr>cnt_read := 0, cnt_write := 0\<rparr>"

definition reset_counters :: "mac_sampling_data \<Rightarrow> mac_sampling_data" where
  "reset_counters ctxt = ctxt\<lparr>ctx_net := reset_counter (ctx_net ctxt),
     ctx_dev := reset_counter (ctx_dev ctxt), ctx_fs := reset_counter (ctx_fs ctxt)\<rparr>"

definition fiveman_sample_info ::
  "kernel \<Rightarrow> fiveman_process_state \<Rightarrow> fiveman_process_statistics_sample \<Rightarrow>
   fiveman_process_statistics_sample \<Rightarrow>
   (fiveman_process_state \<times> fiveman_process_statistics_sample) eff" where
  "fiveman_sample_info k ps prev sample =
     io_bind (deref ''sample_ctxt'' (ps_sample_ctxt ps)) (\<lambda>ctxt.
     io_bind (sys_mac k Dtrace_status) (\<lambda>okay.
     io_bind (if okay then io_bind (sys_dtrace_work k) (\<lambda>recs. io_return (dorecs recs ctxt))
              else io_return ctxt) (\<lambda>ctxt.
     io_bind (sys_gettimeofday k) (\<lambda>now.
     let now_time = TimeValToMicroseconds now;
         time_delta = now_time - sample_time prev;
         secs = seconds_between time_delta;
         sample1 = sample\<lparr>sample_time := now_time\<rparr>
     in io_bind (if fiveman_sampled_task ctxt \<noteq> 0
                 then sample_task k (fiveman_sampled_task ctxt) prev time_delta sample1
                 else io_return sample1) (\<lambda>sample2.
        io_return (ps\<lparr>ps_sample_ctxt := Some (reset_counters ctxt)\<rparr>, set_rates ctxt secs sample2))))))"

section \<open>Lemmas\<close>

lemma microseconds_timeradd:
  "TimeValToMicroseconds (timeradd a b) = TimeValToMicroseconds a + TimeValToMicroseconds b"
  by (simp add: TimeValToMicroseconds_def timeradd_def Let_def kMicrosecondsPerSecond_def
      of_int_add [symmetric] algebra_simps del: of_int_add)

text \<open>The sizes of the traced records of one type.\<close>

definition recorded :: "u32 \<Rightarrow> probe list \<Rightarrow> u64 list" where
  "recorded ty ps = map (\<lambda>(_, r). ucast (block_size r))
     (filter (\<lambda>(d, r). (case d of None \<Rightarrow> False
        | Some rec \<Rightarrow> dtrd_action rec = DTRACEACT_DIFEXPR \<and> dtrd_size rec > 0) \<and> rec_type r = ty) ps)"

definition read_total :: "u32 \<Rightarrow> probe list \<Rightarrow> u64" where
  "read_total ty ps = sum_list (recorded ty ps)"

lemma read_total_Nil [simp]: "read_total ty [] = 0"
  by (simp add: read_total_def recorded_def)

lemma read_total_Cons:
  "read_total ty ((d, r) # ps) =
     (if (case d of None \<Rightarrow> False
          | Some rec \<Rightarrow> dtrd_action rec = DTRACEACT_DIFEXPR \<and> dtrd_size rec > 0) \<and> rec_type r = ty
      then ucast (block_size r) else 0) + read_total ty ps"
  by (simp add: read_total_def recorded_def)

lemma dorecs_Nil [simp]: "dorecs [] ctxt = ctxt"
  by (simp add: dorecs_def)

lemma dorecs_Cons: "dorecs (p # ps) ctxt = dorecs ps (snd (dorec p ctxt))"
  by (simp add: dorecs_def)

lemma snd_dorec:
  "snd (dorec (d, r) ctxt) =
     (if (case d of None \<Rightarrow> False
          | Some rec \<Rightarrow> dtrd_action rec = DTRACEACT_DIFEXPR \<and> dtrd_size rec > 0)
      then count_record r ctxt else ctxt)"
  by (cases d) (auto simp: Let_def)

lemmas counter_defs = count_record_def add_read_def add_write_def io_record_types

lemma dorecs_dev:
  "cnt_read (ctx_dev (dorecs ps c)) = cnt_read (ctx_dev c) + read_total IO_RECORD_DEV_READ ps"
  "cnt_write (ctx_dev (dorecs ps c)) = cnt_write (ctx_dev c) + read_total IO_RECORD_DEV_WRITE ps"
  by (induction ps arbitrary: c)
    (auto simp: dorecs_Cons snd_dorec read_total_Cons counter_defs split: prod.split)

lemma dorecs_fs:
  "cnt_read (ctx_fs (dorecs ps c)) = cnt_read (ctx_fs c) + read_total IO_RECORD_FS_READ ps"
  "cnt_write (ctx_fs (dorecs ps c)) = cnt_write (ctx_fs c) + read_total IO_RECORD_FS_WRITE ps"
  by (induction ps arbitrary: c)
    (auto simp: dorecs_Cons snd_dorec read_total_Cons counter_defs split: prod.split)

lemma dorecs_net:
  "cnt_read (ctx_net (dorecs ps c)) = cnt_read (ctx_net c) + read_total IO_RECORD_NET_READ ps"
  "cnt_write (ctx_net (dorecs ps c)) = cnt_write (ctx_net c) + read_total IO_RECORD_NET_WRITE ps"
  by (induction ps arbitrary: c)
    (auto simp: dorecs_Cons snd_dorec read_total_Cons counter_defs split: prod.split)

lemma dorecs_task: "fiveman_sampled_task (dorecs ps c) = fiveman_sampled_task c"
  by (induction ps arbitrary: c)
    (auto simp: dorecs_Cons snd_dorec counter_defs split: prod.split)

lemma sample_task_frame:
  "\<exists>s' w' infos. sample_task k task prev d s w = (Ret s', w') \<and> sample_time s' = sample_time s
     \<and> trace w' = trace w @ infos \<and> set infos \<subseteq> {Task_info task}"
  by (auto simp: sample_task_def sys_task_basic_info_def sys_task_thread_times_def
      sys_call_def io_run Let_def split: option.split)

text \<open>The calls a sampling backend makes: none of them signals or starts a process.\<close>

definition sampling_event :: "event \<Rightarrow> bool" where
  "sampling_event e = (case e of Mac _ _ \<Rightarrow> True | Task_for_pid _ _ \<Rightarrow> True | Dtrace_work _ \<Rightarrow> True
     | Gettimeofday _ \<Rightarrow> True | Task_info _ \<Rightarrow> True | _ \<Rightarrow> False)"

lemma sampling_event_simps [simp]:
  "sampling_event (Mac c b)" "sampling_event (Task_for_pid p t)" "sampling_event (Dtrace_work l)"
  "sampling_event (Gettimeofday tv)" "sampling_event (Task_info p)"
  by (simp_all add: sampling_event_def)

lemma emits_init_sampling [emits_intros]: "emits sampling_event (fiveman_init_sampling k ps)"
  unfolding fiveman_init_sampling_def authorize_def set_opts_def set_opt_def sys_task_for_pid_def
  by (auto intro!: emits_intros)

lemma emits_teardown_sampling [emits_intros]: "emits sampling_event (fiveman_teardown_sampling k ps)"
  unfolding fiveman_teardown_sampling_def
  by (auto intro!: emits_intros split: option.split)

lemma emits_sample_task [emits_intros]: "emits sampling_event (sample_task k task prev d s)"
  unfolding sample_task_def sys_task_basic_info_def sys_task_thread_times_def
  by (intro emits_intros) (auto simp: Let_def intro!: emits_intros split: option.split)

lemma emits_sample_info [emits_intros]: "emits sampling_event (fiveman_sample_info k ps prev s)"
  unfolding fiveman_sample_info_def Let_def sys_dtrace_work_def
  by (auto intro!: emits_intros)

lemma teardown_sampling_run:
  "\<exists>w'. fiveman_teardown_sampling k ps w = (Ret (ps\<lparr>ps_sample_ctxt := None\<rparr>), w')"
  by (cases "ps_sample_ctxt ps") (auto simp: fiveman_teardown_sampling_def io_simps)

lemma init_sampling_Ret:
  "fiveman_init_sampling k ps w = (Ret ps', w') \<Longrightarrow>
   \<exists>task. ps' = ps\<lparr>ps_sample_ctxt := Some (zero_sampling_data\<lparr>fiveman_sampled_task := task\<rparr>)\<rparr>"
  unfolding fiveman_init_sampling_def
  by (elim io_elims) (auto simp: io_run)

lemma sample_info_run:
  assumes c: "ps_sample_ctxt ps = Some c"
  shows "\<exists>okay recs tv infos s2 w'.
     fiveman_sample_info k ps prev s w =
       (Ret (ps\<lparr>ps_sample_ctxt := Some (reset_counters (dorecs recs c))\<rparr>,
             set_rates (dorecs recs c) (seconds_between (TimeValToMicroseconds tv - sample_time prev)) s2), w')
     \<and> sample_time s2 = TimeValToMicroseconds tv
     \<and> trace w' = trace w @ Mac Dtrace_status okay # (if okay then [Dtrace_work recs] else []) @ Gettimeofday tv # infos
     \<and> (\<not> okay \<longrightarrow> recs = []) \<and> set infos \<subseteq> {Task_info (fiveman_sampled_task c)}"
proof -
  define okay where "okay = k_mac k (trace w) Dtrace_status"
  let ?w1 = "w\<lparr>trace := trace w @ [Mac Dtrace_status okay]\<rparr>"
  define recs where "recs = (if okay then k_dtrace_work k (trace ?w1) else [])"
  define w2 where "w2 = (if okay then ?w1\<lparr>trace := trace ?w1 @ [Dtrace_work recs]\<rparr> else ?w1)"
  define tv where "tv = k_gettimeofday k (trace w2)"
  define now where "now = TimeValToMicroseconds tv"
  let ?w3 = "w2\<lparr>trace := trace w2 @ [Gettimeofday tv]\<rparr>"
  have tr: "trace ?w3 = trace w @ Mac Dtrace_status okay # (if okay then [Dtrace_work recs] else []) @ [Gettimeofday tv]"
    and no: "\<not> okay \<longrightarrow> recs = []"
    by (simp_all add: w2_def recs_def)
  have pre: "fiveman_sample_info k ps prev s w =
    io_bind (if fiveman_sampled_task (dorecs recs c) \<noteq> 0
        then sample_task k (fiveman_sampled_task (dorecs recs c)) prev (now - sample_time prev)
               (s\<lparr>sample_time := now\<rparr>)
        else io_return (s\<lparr>sample_time := now\<rparr>))
      (\<lambda>s2. io_return (ps\<lparr>ps_sample_ctxt := Some (reset_counters (dorecs recs c))\<rparr>,
         set_rates (dorecs recs c) (seconds_between (now - sample_time prev)) s2)) ?w3"
    by (cases okay)
      (simp_all add: fiveman_sample_info_def c io_simps sys_dtrace_work_def sys_call_def Let_def okay_def [symmetric]
        recs_def w2_def tv_def now_def split: prod.split res.split)
  show ?thesis
  proof (cases "fiveman_sampled_task (dorecs recs c) \<noteq> 0")
    case True
    obtain s' w' infos where "sample_task k (fiveman_sampled_task (dorecs recs c)) prev (now - sample_time prev)
        (s\<lparr>sample_time := now\<rparr>) ?w3 = (Ret s', w')" "sample_time s' = now"
      "trace w' = trace ?w3 @ infos" "set infos \<subseteq> {Task_info (fiveman_sampled_task c)}"
      using sample_task_frame [of k "fiveman_sampled_task (dorecs recs c)" prev "now - sample_time prev" "s\<lparr>sample_time := now\<rparr>" ?w3]
      by (auto simp: dorecs_task)
    with True tr no show ?thesis unfolding pre
      by (intro exI [of _ okay] exI [of _ recs] exI [of _ tv] exI [of _ infos] exI [of _ s'] exI [of _ w'])
        (simp add: io_run now_def)
  next
    case False
    with tr no show ?thesis unfolding pre
      by (intro exI [of _ okay] exI [of _ recs] exI [of _ tv] exI [of _ "[]"] exI [of _ "s\<lparr>sample_time := now\<rparr>"])
        (simp add: io_run now_def)
  qed
qed

lemma cpu_percent_at_most_100:
  assumes "0 < time_delta" "total_delta \<le> time_delta"
  shows "unat (cpu_percent k total_delta time_delta) \<le> 100"
proof -
  let ?t = "dbl (of_int (uint total_delta))" and ?d = "dbl (of_int (uint time_delta))"
  let ?p = "dbl (dbl (?t / ?d) * 100)"
  have "(of_int 0 :: rat) \<le> of_int (uint total_delta)" by (simp only: of_int_le_iff uint_ge_0)
  then have t0: "(0 :: rat) \<le> of_int (uint total_delta)" by (simp only: of_int_0)
  have "uint total_delta \<le> uint time_delta" using assms(2) by (simp only: word_le_def)
  then have "(of_int (uint total_delta) :: rat) \<le> of_int (uint time_delta)" by (simp only: of_int_le_iff)
  then have le: "?t \<le> ?d" by (rule dbl_mono [OF t0])
  have "0 < uint time_delta" using assms(1) by (simp only: word_less_def uint_0_eq)
  then have "1 \<le> uint time_delta" by linarith
  then have "(of_int 1 :: rat) \<le> of_int (uint time_delta)" by (simp only: of_int_le_iff)
  then have "dbl (of_int 1) \<le> ?d" by (intro dbl_mono) simp_all
  then have d: "1 \<le> ?d" using dbl_int [of 1] by simp
  have t: "0 \<le> ?t" by (rule dbl_nonneg [OF t0])
  have "dbl (?t / ?d) \<le> dbl (of_int 1)" using le d t by (intro dbl_mono) (simp_all add: divide_le_eq)
  then have r1: "dbl (?t / ?d) \<le> 1" using dbl_int [of 1] by simp
  have r0: "0 \<le> dbl (?t / ?d)" using t d by (intro dbl_nonneg) simp
  have "?p \<le> dbl (of_int 100)" using r0 r1 by (intro dbl_mono) simp_all
  then have p1: "?p \<le> of_int 100" using dbl_int [of 100] by simp
  have p0: "0 \<le> ?p" using r0 by (intro dbl_nonneg) simp
  have "0 \<le> c_round ?p" "c_round ?p \<le> 100"
    using c_round_nonneg [OF p0] c_round_le_int [OF p1 p0] by simp_all
  then show ?thesis
    using assms(1) unfolding cpu_percent_def
    by (simp add: unat_eq_nat_uint uint_word_of_int take_bit_int_eq_self word_gt_0 nat_le_iff)
qed

section \<open>The interface of a sampling backend\<close>

text \<open>
  What \<open>fiveman_process_state.c\<close> relies on: attaching leaves a context, detaching always returns and
  leaves none, sampling an attached process always returns, keeps it attached and changes nothing
  else, and none of the three signals or starts a process.
\<close>

locale sampling_backend =
  fixes init :: "fiveman_process_state \<Rightarrow> fiveman_process_state eff"
    and teardown :: "fiveman_process_state \<Rightarrow> fiveman_process_state eff"
    and sample_info :: "fiveman_process_state \<Rightarrow> fiveman_process_statistics_sample \<Rightarrow>
      fiveman_process_statistics_sample \<Rightarrow> (fiveman_process_state \<times> fiveman_process_statistics_sample) eff"
  assumes init_attaches:
      "init ps w = (Ret ps', w') \<Longrightarrow> \<exists>c. ps' = ps\<lparr>ps_sample_ctxt := Some c\<rparr>"
    and teardown_detaches: "\<exists>w'. teardown ps w = (Ret (ps\<lparr>ps_sample_ctxt := None\<rparr>), w')"
    and sample_returns:
      "ps_sample_ctxt ps = Some c \<Longrightarrow>
       \<exists>c' s' w'. sample_info ps prev s w = (Ret (ps\<lparr>ps_sample_ctxt := Some c'\<rparr>, s'), w')"
    and init_calls: "emits sampling_event (init ps)"
    and teardown_calls: "emits sampling_event (teardown ps)"
    and sample_calls: "emits sampling_event (sample_info ps prev s)"
begin

text \<open>Replacing the sampled process: detach, set the new process id, attach.\<close>

lemma reattach_Ret:
  assumes "io_bind (teardown ps) (\<lambda>ps1. init (ps1\<lparr>ps_pid := pid\<rparr>)) w = (Ret ps', w')"
  shows "\<exists>c. ps' = ps\<lparr>ps_pid := pid, ps_sample_ctxt := Some c\<rparr>"
proof -
  obtain w1 where t: "teardown ps w = (Ret (ps\<lparr>ps_sample_ctxt := None\<rparr>), w1)"
    using teardown_detaches by blast
  with assms have "init (ps\<lparr>ps_sample_ctxt := None, ps_pid := pid\<rparr>) w1 = (Ret ps', w')"
    by (simp add: io_run)
  from init_attaches [OF this] show ?thesis by auto
qed

lemma reattach_calls:
  "emits sampling_event (io_bind (teardown ps) (\<lambda>ps1. init (ps1\<lparr>ps_pid := pid\<rparr>)))"
  by (intro emits_bind teardown_calls init_calls)

end

interpretation mac: sampling_backend
  "fiveman_init_sampling k" "fiveman_teardown_sampling k" "fiveman_sample_info k" for k
proof (unfold_locales, goal_cases)
  case (1 ps w ps' w')
  then show ?case using init_sampling_Ret by blast
next
  case (3 ps c prev s w)
  then show ?case using sample_info_run by blast
qed (auto intro: teardown_sampling_run emits_intros)

section \<open>Properties\<close>

text \<open>C21: Every traced byte is counted once. Whatever \<open>dtrace_work\<close> delivers, each of the six counters
  grows by the sizes of the traced records of its own type (modulo 2^64), records of other types
  or without data count nowhere, and the sampled task is not touched.\<close>

theorem dorec_conserves_bytes:
  "cnt_read (ctx_dev (dorecs ps c)) = cnt_read (ctx_dev c) + sum_list (recorded IO_RECORD_DEV_READ ps)
   \<and> cnt_write (ctx_dev (dorecs ps c)) = cnt_write (ctx_dev c) + sum_list (recorded IO_RECORD_DEV_WRITE ps)
   \<and> cnt_read (ctx_fs (dorecs ps c)) = cnt_read (ctx_fs c) + sum_list (recorded IO_RECORD_FS_READ ps)
   \<and> cnt_write (ctx_fs (dorecs ps c)) = cnt_write (ctx_fs c) + sum_list (recorded IO_RECORD_FS_WRITE ps)
   \<and> cnt_read (ctx_net (dorecs ps c)) = cnt_read (ctx_net c) + sum_list (recorded IO_RECORD_NET_READ ps)
   \<and> cnt_write (ctx_net (dorecs ps c)) = cnt_write (ctx_net c) + sum_list (recorded IO_RECORD_NET_WRITE ps)
   \<and> fiveman_sampled_task (dorecs ps c) = fiveman_sampled_task c"
  by (simp add: dorecs_dev dorecs_fs dorecs_net dorecs_task read_total_def)

text \<open>C20: A sample reports and clears the counters. Sampling an attached process always returns. It asks
  libdtrace for its status, consumes what \<open>dtrace_work\<close> delivers if that status is good and nothing
  otherwise, reads the clock and, at most, asks for the task's information. Each of the six rates is what
  its own counter held plus the sizes of the records of its own type that were just delivered, divided by the whole
  seconds since the previous sample (1 if less than one has passed), and the counters left behind are
  zero, so no byte is reported twice.\<close>

theorem sample_info_reports_and_clears:
  assumes "ps_sample_ctxt ps = Some c"
  shows "\<exists>okay recs tv infos elapsed secs c' s' w'. fiveman_sample_info k ps prev s w = (Ret (ps\<lparr>ps_sample_ctxt := Some c'\<rparr>, s'), w')
    \<and> trace w' = trace w @ Mac Dtrace_status okay # (if okay then [Dtrace_work recs] else []) @ Gettimeofday tv # infos
    \<and> (\<not> okay \<longrightarrow> recs = []) \<and> set infos \<subseteq> {Task_info (fiveman_sampled_task c)}
    \<and> sample_time s' = TimeValToMicroseconds tv
    \<and> elapsed = ucast ((sample_time s' - sample_time prev) div 1000000) \<and> secs = (if elapsed = 0 then 1 else elapsed :: u32)
    \<and> io_read_rate s' = (cnt_read (ctx_dev c) + sum_list (recorded IO_RECORD_DEV_READ recs)) div ucast secs
    \<and> io_write_rate s' = (cnt_write (ctx_dev c) + sum_list (recorded IO_RECORD_DEV_WRITE recs)) div ucast secs
    \<and> net_read_rate s' = (cnt_read (ctx_net c) + sum_list (recorded IO_RECORD_NET_READ recs)) div ucast secs
    \<and> net_write_rate s' = (cnt_write (ctx_net c) + sum_list (recorded IO_RECORD_NET_WRITE recs)) div ucast secs
    \<and> fs_read_rate s' = (cnt_read (ctx_fs c) + sum_list (recorded IO_RECORD_FS_READ recs)) div ucast secs
    \<and> fs_write_rate s' = (cnt_write (ctx_fs c) + sum_list (recorded IO_RECORD_FS_WRITE recs)) div ucast secs
    \<and> fiveman_sampled_task c' = fiveman_sampled_task c
    \<and> cnt_read (ctx_dev c') = 0 \<and> cnt_write (ctx_dev c') = 0
    \<and> cnt_read (ctx_net c') = 0 \<and> cnt_write (ctx_net c') = 0
    \<and> cnt_read (ctx_fs c') = 0 \<and> cnt_write (ctx_fs c') = 0"
proof -
  obtain okay recs tv infos s2 w' where
    run: "fiveman_sample_info k ps prev s w =
       (Ret (ps\<lparr>ps_sample_ctxt := Some (reset_counters (dorecs recs c))\<rparr>,
             set_rates (dorecs recs c) (seconds_between (TimeValToMicroseconds tv - sample_time prev)) s2), w')"
    and t: "sample_time s2 = TimeValToMicroseconds tv"
      "trace w' = trace w @ Mac Dtrace_status okay # (if okay then [Dtrace_work recs] else []) @ Gettimeofday tv # infos"
      "\<not> okay \<longrightarrow> recs = []" "set infos \<subseteq> {Task_info (fiveman_sampled_task c)}"
    using sample_info_run [OF assms] by blast
  define elapsed :: u32 where "elapsed = ucast ((TimeValToMicroseconds tv - sample_time prev) div 1000000)"
  have "seconds_between (TimeValToMicroseconds tv - sample_time prev) = (if elapsed = 0 then 1 else elapsed)"
    by (simp add: seconds_between_def Let_def elapsed_def)
  with run t show ?thesis
    by (intro exI [of _ okay] exI [of _ recs] exI [of _ tv] exI [of _ infos] exI [of _ elapsed]
        exI [of _ "if elapsed = 0 then 1 else elapsed"] exI [of _ "reset_counters (dorecs recs c)"]
        exI [of _ "set_rates (dorecs recs c) (if elapsed = 0 then 1 else elapsed) s2"] exI [of _ w'])
      (simp add: elapsed_def set_rates_def reset_counters_def reset_counter_def
        dorecs_dev dorecs_fs dorecs_net dorecs_task read_total_def)
qed

definition example_state :: fiveman_process_state where
  "example_state = \<lparr> ps_instruction = \<lparr> instr_name = Some ''web'', instr_exec = Some ''run'', instr_next = None \<rparr>,
     ps_intent = zero_intent, ps_desired_intent = zero_intent, ps_sample = zero_sample,
     ps_desired_port = 5000, ps_pid = 0, ps_host_read_fd = 0, ps_child_write_fd = 0,
     ps_last_state_change = 0, ps_stdout = Some ''/tmp/o'', ps_stdout_stat = zero_stat,
     ps_stdout_paged_at = 0, ps_stderr = Some ''/tmp/e'', ps_stderr_stat = zero_stat,
     ps_stderr_paged_at = 0, ps_sample_ctxt = None \<rparr>"

theorem sample_info_reports_and_clears_witness:
  "\<exists>s' w'. fiveman_sample_info quiet_kernel
      (example_state\<lparr>ps_sample_ctxt := Some (zero_sampling_data\<lparr>ctx_dev := zero_counter\<lparr>cnt_read := 50\<rparr>\<rparr>)\<rparr>)
      zero_sample zero_sample start_world = (Ret s', w')"
proof -
  let ?c = "zero_sampling_data\<lparr>ctx_dev := zero_counter\<lparr>cnt_read := 50\<rparr>\<rparr>"
  have "ps_sample_ctxt (example_state\<lparr>ps_sample_ctxt := Some ?c\<rparr>) = Some ?c" by simp
  from sample_info_reports_and_clears [OF this, of quiet_kernel zero_sample zero_sample start_world] show ?thesis by blast
qed

text \<open>The total time is the sum of the four task times in microseconds, carries included, modulo
  2^64.\<close>

theorem task_total_time_sum:
  "task_total_time bi tt =
     TimeValToMicroseconds (tt_user_time tt) + TimeValToMicroseconds (tt_system_time tt)
     + TimeValToMicroseconds (bi_user_time bi) + TimeValToMicroseconds (bi_system_time bi)"
  by (simp add: task_total_time_def microseconds_timeradd)

text \<open>A process that used at most the elapsed time is never shown above 100 percent, whatever the
  three roundings of the double computation do.\<close>

theorem cpu_usage_at_most_100:
  assumes "0 < time_delta" "total_delta \<le> time_delta"
  shows "unat (cpu_percent k total_delta time_delta) \<le> 100"
  using assms by (rule cpu_percent_at_most_100)

theorem cpu_usage_at_most_100_witness:
  "(0 :: u64) < 1000000 \<and> unat (cpu_percent quiet_kernel 999999 1000000) \<le> 100"
  using cpu_usage_at_most_100 [of 1000000 999999 quiet_kernel] by simp

text \<open>\<open>set_opts\<close> tries all five options, in order and whatever fails, and reports failure exactly
  when one of them failed.\<close>

theorem set_opts_tries_all:
  "\<exists>a b c d e w'. set_opts k w = (Ret (if a \<and> b \<and> c \<and> d \<and> e then 0 else - 1), w')
    \<and> trace w' = trace w @ [Mac (Dtrace_setopt ''strsize'' ''4096'') a, Mac (Dtrace_setopt ''bufsize'' ''64k'') b,
        Mac (Dtrace_setopt ''aggsize'' ''0k'') c, Mac (Dtrace_setopt ''specsize'' ''0k'') d,
        Mac (Dtrace_setopt ''arch'' ''x86_64'') e]"
proof -
  obtain a where a: "a = k_mac k (trace w) (Dtrace_setopt ''strsize'' ''4096'')" by simp
  let ?t1 = "trace w @ [Mac (Dtrace_setopt ''strsize'' ''4096'') a]"
  obtain b where b: "b = k_mac k ?t1 (Dtrace_setopt ''bufsize'' ''64k'')" by simp
  let ?t2 = "?t1 @ [Mac (Dtrace_setopt ''bufsize'' ''64k'') b]"
  obtain c where c: "c = k_mac k ?t2 (Dtrace_setopt ''aggsize'' ''0k'')" by simp
  let ?t3 = "?t2 @ [Mac (Dtrace_setopt ''aggsize'' ''0k'') c]"
  obtain d where d: "d = k_mac k ?t3 (Dtrace_setopt ''specsize'' ''0k'')" by simp
  let ?t4 = "?t3 @ [Mac (Dtrace_setopt ''specsize'' ''0k'') d]"
  obtain e where e: "e = k_mac k ?t4 (Dtrace_setopt ''arch'' ''x86_64'')" by simp
  have "set_opts k w = (Ret (if a \<and> b \<and> c \<and> d \<and> e then 0 else - 1),
      w\<lparr>trace := ?t4 @ [Mac (Dtrace_setopt ''arch'' ''x86_64'') e]\<rparr>)"
    by (simp add: set_opts_def set_opt_def io_simps a b c d e)
  then show ?thesis by (intro exI [of _ a] exI [of _ b] exI [of _ c] exI [of _ d] exI [of _ e]) simp
qed

end
