(* ===== verification/Fiveman_Terminal.thy ===== *)
theory Fiveman_Terminal
  imports Fiveman_Kernel
begin

text \<open>
  The part of \<open>src/ncurses_screen.c\<close> that knows nothing of processes: the terminal modes
  (\<open>setup_screen\<close>, \<open>suspend_screen\<close>, \<open>resume_screen\<close>, \<open>teardown_screen\<close>), the widths of the columns
  (\<open>update_screen_extents\<close>) and the two fixed lines of text. Coordinates are screen sizes, far from
  the bounds of \<open>int\<close>, and are integers here.
\<close>

section \<open>Terminal modes\<close>

fun curses_all :: "curses_op list \<Rightarrow> unit eff" where
  "curses_all [] = io_return ()"
| "curses_all (op # ops) = io_then (curses op) (curses_all ops)"

definition setup_screen :: "unit eff" where
  "setup_screen =
     io_then (io_modify (\<lambda>w. w\<lparr>exit_fiveman := False, exit_fiveman_immediately := False\<rparr>))
       (curses_all [Initscr, Keypad True, Nonl, Nocbreak, Noecho, Raw, Halfdelay 10, Curs_set False])"

definition teardown_screen :: "unit eff" where
  "teardown_screen = curses Endwin"

definition suspend_screen :: "unit eff" where
  "suspend_screen = curses_all [Def_prog_mode, Endwin]"

definition resume_screen :: "unit eff" where
  "resume_screen = curses_all [Reset_prog_mode, Refresh]"

section \<open>Columns\<close>

definition update_screen_extents :: "int \<Rightarrow> int \<Rightarrow> fiveman_ncurses_screen_extents" where
  "update_screen_extents maxy maxx =
     (let total = maxx; spacing = 1;
          state = 20; total = total - (state + spacing);
          pid = 10; total = total - (pid + spacing);
          age = 30; total = total - (age + spacing);
          cpu = 5; total = total - (cpu + spacing);
          mem = 12; total = total - (mem + spacing);
          net = 12; total = total - (net + spacing);
          io = 12; total = total - (io + spacing);
          fs = 12; total = total - (fs + spacing);
          out = 6; total = total - (out + spacing);
          err = 6; total = total - (err + spacing);
          total = (if total < 0 then 0 else total)
      in \<lparr> name_size = total, state_size = state, pid_size = pid, age_size = age, cpu_size = cpu,
           mem_size = mem, net_size = net, io_size = io, fs_size = fs, stdout_size = out,
           stderr_size = err, spacing_size = spacing \<rparr>)"

text \<open>
  One line of the table: the same sequence of \<open>move\<close>, \<open>addstr\<close> and \<open>col_head += size + spacing\<close> is
  written out in \<open>draw_headers\<close> and in \<open>draw_screen_entry\<close>, for eleven cells each.
\<close>

fun draw_cells :: "int \<Rightarrow> int \<Rightarrow> int \<Rightarrow> (string \<times> int) list \<Rightarrow> unit eff" where
  "draw_cells row col_head spacing [] = io_return ()"
| "draw_cells row col_head spacing ((str, width) # cells) =
     io_then (curses (Move row col_head)) (
     io_then (curses (Addstr str)) (
     draw_cells row (col_head + (width + spacing)) spacing cells))"

definition draw_headers :: "fiveman_ncurses_screen_extents \<Rightarrow> int \<Rightarrow> unit eff" where
  "draw_headers ext row =
     io_then (curses Clrtoeol) (
     draw_cells row 0 (spacing_size ext)
       [(''PROCESS'', name_size ext), (''PID'', pid_size ext), (''STATE'', state_size ext),
        (''AGE'', age_size ext), (''CPU'', cpu_size ext), (''MEM'', mem_size ext),
        (''NET R/W'', net_size ext), (''IO R/W'', io_size ext), (''FS R/W'', fs_size ext),
        (''STDOUT'', stdout_size ext), (''STDERR'', stderr_size ext)])"

definition BOTTOM_BAR_TEXT :: string where
  "BOTTOM_BAR_TEXT = ''[Up Arrow / Down Arrow] Choose Process | [l] Launch Process | [s] Stop Process | [o] View stdout | [e] View stderr | [q] Quit''"

definition draw_ui_text :: "string \<Rightarrow> string \<Rightarrow> int \<Rightarrow> int \<Rightarrow> unit eff" where
  "draw_ui_text procfile directory maxy maxx =
     curses_all [Move (maxy - 1) 0, Addstr BOTTOM_BAR_TEXT,
       Move 0 0, Addstr (''Procfile: '' @ procfile @ '' Directory: '' @ directory)]"

section \<open>Lemmas\<close>

lemma curses_all_run: "curses_all ops w = (Ret (), w\<lparr>trace := trace w @ map Curses ops\<rparr>)"
  by (induction ops arbitrary: w) (simp_all add: io_simps)

lemma terminal_mode_run [io_simps]:
  "setup_screen w = (Ret (), w\<lparr>exit_fiveman := False, exit_fiveman_immediately := False,
     trace := trace w @ map Curses [Initscr, Keypad True, Nonl, Nocbreak, Noecho, Raw, Halfdelay 10, Curs_set False]\<rparr>)"
  "teardown_screen w = (Ret (), w\<lparr>trace := trace w @ [Curses Endwin]\<rparr>)"
  "suspend_screen w = (Ret (), w\<lparr>trace := trace w @ [Curses Def_prog_mode, Curses Endwin]\<rparr>)"
  "resume_screen w = (Ret (), w\<lparr>trace := trace w @ [Curses Reset_prog_mode, Curses Refresh]\<rparr>)"
  "draw_ui_text pf d maxy maxx w = (Ret (), w\<lparr>trace := trace w @ map Curses
     [Move (maxy - 1) 0, Addstr BOTTOM_BAR_TEXT, Move 0 0, Addstr (''Procfile: '' @ pf @ '' Directory: '' @ d)]\<rparr>)"
  by (simp_all add: setup_screen_def teardown_screen_def suspend_screen_def resume_screen_def
      draw_ui_text_def io_simps curses_all_run)

text \<open>The cells of a line with the column each starts at.\<close>

fun place_cells :: "int \<Rightarrow> int \<Rightarrow> (string \<times> int) list \<Rightarrow> (int \<times> string) list" where
  "place_cells col spacing [] = []"
| "place_cells col spacing ((s, width) # cells) = (col, s) # place_cells (col + (width + spacing)) spacing cells"

lemma draw_cells_run:
  "draw_cells row col sp cells w = (Ret (), w\<lparr>trace := trace w @
     concat (map (\<lambda>(c, s). [Curses (Move row c), Curses (Addstr s)]) (place_cells col sp cells))\<rparr>)"
  by (induction cells arbitrary: col w) (auto simp: io_simps)

lemma length_place_cells [simp]: "length (place_cells col sp cells) = length cells"
  by (induction col sp cells rule: place_cells.induct) auto

section \<open>Properties\<close>

text \<open>The column boundaries of a line: where each of the eleven cells starts and how wide it is.\<close>

definition column_sizes :: "fiveman_ncurses_screen_extents \<Rightarrow> int list" where
  "column_sizes e = [name_size e, pid_size e, state_size e, age_size e, cpu_size e, mem_size e,
     net_size e, io_size e, fs_size e, stdout_size e, stderr_size e]"

definition column_starts :: "fiveman_ncurses_screen_extents \<Rightarrow> int list" where
  "column_starts e = map fst (place_cells 0 (spacing_size e) (map (\<lambda>n. ([], n)) (column_sizes e)))"

text \<open>The columns fill the screen. The process column takes what the ten fixed columns leave, never
  less than 0; consecutive columns do not overlap; and on a screen of at least 135 columns the last one
  ends exactly at the right edge, while on any narrower screen it runs past it.\<close>

theorem screen_extents_fit:
  "let e = update_screen_extents maxy maxx;
       right = last (column_starts e) + last (column_sizes e)
   in name_size e = max 0 (maxx - 135)
     \<and> (\<forall>i. i < 10 \<longrightarrow> column_starts e ! i + column_sizes e ! i + spacing_size e = column_starts e ! Suc i)
     \<and> (if 135 \<le> maxx then right = maxx else maxx < right)"
proof -
  have "\<forall>i. i < 10 \<longrightarrow> column_starts e ! i + column_sizes e ! i + spacing_size e = column_starts e ! Suc i"
    for e by (auto simp: column_starts_def column_sizes_def less_Suc_eq numeral_eq_Suc)
  then show ?thesis
    by (auto simp: Let_def update_screen_extents_def column_starts_def column_sizes_def)
qed

theorem screen_extents_fit_witness:
  "last (column_starts (update_screen_extents 24 80)) + 6 = 135"
  using screen_extents_fit [of 24 80]
  by (simp add: Let_def update_screen_extents_def column_starts_def column_sizes_def)

end
