(* ===== verification/Fiveman_Pager.thy ===== *)
theory Fiveman_Pager
  imports Fiveman_Kernel
begin

text \<open>
  \<open>src/fiveman_pager_fork.c\<close>: the helper process that runs a pager on the files the user wants to
  see. Parent and child talk over two pipes: the parent writes the length of a path as four bytes in
  network order and then the path, and waits for one byte of confirmation. Both sides are modelled;
  \<open>pager_input\<close> is what the child's loop does with the answer of one \<open>read\<close>.
\<close>

section \<open>Network byte order\<close>

definition htonl_bytes :: "u32 \<Rightarrow> u8 list" where
  "htonl_bytes n = [ucast (drop_bit 24 n), ucast (drop_bit 16 n), ucast (drop_bit 8 n), ucast n]"

definition ntohl_bytes :: "u8 list \<Rightarrow> u32" where
  "ntohl_bytes bs = foldl (\<lambda>acc b. or (push_bit 8 acc) (ucast b)) 0 bs"

definition bytes_of :: "string \<Rightarrow> u8 list" where
  "bytes_of s = map (\<lambda>c. word_of_nat (of_char c)) s"

definition text_of :: "u8 list \<Rightarrow> string" where
  "text_of bs = map (\<lambda>b. char_of (unat b)) bs"

section \<open>Data\<close>

record fiveman_pager_fork =
  pf_pid :: int
  pf_file_write_fd :: int
  pf_file_read_fd :: int
  pf_confirm_write_fd :: int
  pf_confirm_read_fd :: int

text \<open>
  The automatic variables of the child's loop. \<open>pg_buffer\<close> holds the bytes stored since the buffer
  was last cleared, so \<open>buffer_pointer\<close> is its length and the rest of the 65536 bytes is zero.
\<close>

record pager_child =
  pg_reading_size :: bool
  pg_reading_file :: bool
  pg_num_bytes :: u32
  pg_buffer :: "u8 list"

definition pager_buffer_size :: nat where "pager_buffer_size = 65536"

definition pager_start :: pager_child where
  "pager_start = \<lparr> pg_reading_size = True, pg_reading_file = False, pg_num_bytes = 0, pg_buffer = [] \<rparr>"

section \<open>The pager\<close>

definition fiveman_default_pager :: string where
  "fiveman_default_pager = ''/usr/bin/more''"

definition fiveman_get_pager :: "kernel \<Rightarrow> string" where
  "fiveman_get_pager k =
     (case getenv (k_environ k) ''PAGER'' of
        None \<Rightarrow> fiveman_default_pager
      | Some pager \<Rightarrow> if 0 < length pager then pager else fiveman_default_pager)"

text \<open>
  \<open>fiveman_pager_execute\<close>. In the forked process \<open>execlp\<close> replaces the program or fails; either way
  that process does not come back into this code, which is the fault \<open>Exited\<close>. When \<open>fork\<close> fails
  nothing happens at all. The path is read by the forked process only; \<open>file\<close> is the string found where
  the argument points, a fault when the array holds no terminator.
\<close>

definition fiveman_pager_execute :: "kernel \<Rightarrow> string res \<Rightarrow> fiveman_pager_fork \<Rightarrow> unit eff" where
  "fiveman_pager_execute k file rsrc =
     io_bind (sys_fork k) (\<lambda>child.
     if child = 0 then
       io_bind (io_res file) (\<lambda>path.
       io_then (sys_note (Execlp (fiveman_get_pager k) (Some path)))
         (io_then (sys_note Printf) (\<lambda>w. io_fault (Exited (k_errno k (trace w))) w)))
     else if child > 0 then
       io_then (sys_note (Tcsetpgrp STDIN_FILENO child)) (
       io_then (sys_note (Tcsetpgrp STDOUT_FILENO child)) (
       io_then (sys_note (Tcsetpgrp STDERR_FILENO child)) (
       io_then (sys_waitpid k child) (
       sys_note (Write_fd (pf_confirm_write_fd rsrc) [49])))))
     else io_return ())"

section \<open>The child\<close>

text \<open>A read that would store past the end of the buffer.\<close>

definition pager_store :: "u8 list \<Rightarrow> pager_child \<Rightarrow> pager_child res" where
  "pager_store bs st =
     (if length (pg_buffer st) + length bs \<le> pager_buffer_size
      then Ret (st\<lparr>pg_buffer := pg_buffer st @ bs\<rparr>) else Fault (OutOfBounds ''buffer''))"

definition on_size_read :: "u8 list option \<Rightarrow> pager_child \<Rightarrow> pager_child res" where
  "on_size_read answer st =
     (case answer of
        None \<Rightarrow> Ret st
      | Some bs \<Rightarrow>
          (case pager_store bs st of
             Fault e \<Rightarrow> Fault e
           | Ret st' \<Rightarrow>
               Ret (if length (pg_buffer st') = 4
                    then st'\<lparr>pg_num_bytes := ntohl_bytes (pg_buffer st'), pg_reading_size := False,
                             pg_reading_file := True, pg_buffer := []\<rparr>
                    else st')))"

text \<open>The string at the start of the buffer, whose bytes behind those stored are zero: a path that fills all
  of it has no terminator.\<close>

definition buffer_string :: "u8 list \<Rightarrow> string res" where
  "buffer_string bs =
     (if length bs < pager_buffer_size \<or> 0 \<in> set bs then Ret (cstr (text_of bs))
      else Fault (OutOfBounds ''buffer''))"

definition on_file_read :: "u8 list option \<Rightarrow> pager_child \<Rightarrow> (pager_child \<times> string res option) res" where
  "on_file_read answer st =
     (case answer of
        None \<Rightarrow> Ret (st, None)
      | Some bs \<Rightarrow>
          (case pager_store bs st of
             Fault e \<Rightarrow> Fault e
           | Ret st' \<Rightarrow>
               if length (pg_buffer st') = unat (pg_num_bytes st')
               then Ret (st'\<lparr>pg_reading_size := True, pg_reading_file := False, pg_buffer := []\<rparr>,
                         Some (buffer_string (pg_buffer st')))
               else Ret (st', None)))"

text \<open>
  One round of \<open>for(;;)\<close>. The two \<open>if\<close>s follow each other, so a round that completes the size goes
  on to read the file.
\<close>

definition pager_round :: "kernel \<Rightarrow> fiveman_pager_fork \<Rightarrow> pager_child \<Rightarrow> pager_child eff" where
  "pager_round k rsrc st =
     io_bind (sys_select k (pf_file_read_fd rsrc)) (\<lambda>status.
     if status > 0 then
       io_bind (if pg_reading_size st
                then io_bind (sys_read k (pf_file_read_fd rsrc) 4) (\<lambda>a. io_res (on_size_read a st))
                else io_return st) (\<lambda>st.
       if pg_reading_file st then
         io_bind (sys_read k (pf_file_read_fd rsrc) (unat (pg_num_bytes st))) (\<lambda>a.
         io_bind (io_res (on_file_read a st)) (\<lambda>(st', file).
         case file of
           None \<Rightarrow> io_return st'
         | Some f \<Rightarrow> io_then (fiveman_pager_execute k f rsrc) (io_return st')))
       else io_return st)
     else io_return st)"

text \<open>The loop never ends; \<open>n\<close> is the number of rounds looked at.\<close>

fun fiveman_pager_fork_main :: "kernel \<Rightarrow> fiveman_pager_fork \<Rightarrow> nat \<Rightarrow> pager_child \<Rightarrow> pager_child eff" where
  "fiveman_pager_fork_main k rsrc 0 st = io_return st"
| "fiveman_pager_fork_main k rsrc (Suc n) st =
     io_bind (pager_round k rsrc st) (fiveman_pager_fork_main k rsrc n)"

section \<open>The parent\<close>

definition fiveman_pager_fork_wait_for_confirm :: "kernel \<Rightarrow> fiveman_pager_fork \<Rightarrow> unit eff" where
  "fiveman_pager_fork_wait_for_confirm k fork =
     retry ''wait_for_confirm''
       (io_bind (sys_select k (pf_confirm_read_fd fork)) (\<lambda>status.
        if status > 0 then
          io_bind (sys_read k (pf_confirm_read_fd fork) 4096) (\<lambda>a.
          io_return (case a of None \<Rightarrow> True | Some bs \<Rightarrow> bs = []))
        else io_return True))
       (k_fuel k)"

definition fiveman_pager_fork_page_file :: "kernel \<Rightarrow> fiveman_pager_fork \<Rightarrow> string option \<Rightarrow> unit eff" where
  "fiveman_pager_fork_page_file k fork file =
     io_bind (deref ''file'' file) (\<lambda>f.
     let strsize = word_of_nat (length f) :: u32
     in io_then (sys_note (Write_fd (pf_file_write_fd fork) (htonl_bytes strsize))) (
        io_then (sys_note (Write_fd (pf_file_write_fd fork) (take (unat strsize) (bytes_of f)))) (
        fiveman_pager_fork_wait_for_confirm k fork)))"

text \<open>
  \<open>fiveman_pager_fork_create\<close> forks the child (result 0), where only \<open>fiveman_pager_fork_main\<close>
  follows; \<open>create_child\<close> is that side after \<open>n\<close> rounds. A failing \<open>fork\<close> is stored as the pid -1.
\<close>

definition pager_record :: "int \<times> int \<Rightarrow> int \<times> int \<Rightarrow> int \<Rightarrow> fiveman_pager_fork" where
  "pager_record files confirms pid =
     \<lparr> pf_pid = pid, pf_file_write_fd = snd files, pf_file_read_fd = fst files,
       pf_confirm_write_fd = snd confirms, pf_confirm_read_fd = fst confirms \<rparr>"

definition fiveman_pager_fork_create :: "kernel \<Rightarrow> nat \<Rightarrow> fiveman_pager_fork eff" where
  "fiveman_pager_fork_create k n =
     io_bind (sys_pipe k) (\<lambda>file_filedes.
     io_bind (sys_pipe k) (\<lambda>confirm_filedes.
     io_bind (sys_fork k) (\<lambda>pid.
     let rsrc = pager_record file_filedes confirm_filedes pid
     in if pid = 0 then
          io_then (sys_note (Close (pf_file_write_fd rsrc))) (
          io_then (sys_note (Close (pf_confirm_read_fd rsrc))) (
          io_then (fiveman_pager_fork_main k rsrc n pager_start) (
          io_fault (NeverReturns ''fiveman_pager_fork_main''))))
        else
          io_then (sys_note (Close (pf_file_read_fd rsrc))) (
          io_then (sys_note (Close (pf_confirm_write_fd rsrc))) (
          io_return rsrc)))))"

definition fiveman_pager_fork_destroy :: "kernel \<Rightarrow> fiveman_pager_fork \<Rightarrow> unit eff" where
  "fiveman_pager_fork_destroy k fork =
     io_when (pf_pid fork > 0) (
       io_then (sys_kill k (pf_pid fork) SIGTERM) (
       io_then (sys_note (Close (pf_file_write_fd fork))) (
       sys_note (Close (pf_confirm_read_fd fork)))))"

section \<open>Lemmas\<close>

lemma ntohl_htonl: "ntohl_bytes (htonl_bytes n) = n"
proof (rule bit_word_eqI)
  fix i assume "i < LENGTH(32)"
  then have i: "i < 32" by simp
  consider "i < 8" | "8 \<le> i" "i < 16" | "16 \<le> i" "i < 24" | "24 \<le> i" by linarith
  then show "bit (ntohl_bytes (htonl_bytes n)) i = bit n i"
    using i by cases (auto simp: ntohl_bytes_def htonl_bytes_def bit_simps)
qed

lemma length_htonl [simp]: "length (htonl_bytes n) = 4"
  by (simp add: htonl_bytes_def)

lemma length_bytes_of [simp]: "length (bytes_of s) = length s"
  by (simp add: bytes_of_def)

lemma text_bytes: "text_of (bytes_of s) = s"
proof -
  have "char_of (unat (word_of_nat (of_char c) :: u8)) = c" for c
  proof -
    have "(of_char c :: nat) < 256" by (rule nat_of_char_less_256)
    then have "unat (word_of_nat (of_char c) :: u8) = of_char c" by (simp add: unat_of_nat)
    then show ?thesis by simp
  qed
  then show ?thesis unfolding text_of_def bytes_of_def by (induction s) simp_all
qed

text \<open>The bytes that a sequence of reads delivered.\<close>

definition answered :: "u8 list option list \<Rightarrow> u8 list" where
  "answered as = concat (map (\<lambda>a. case a of None \<Rightarrow> [] | Some bs \<Rightarrow> bs) as)"

lemma answered_simps [simp]:
  "answered [] = []" "answered (None # as) = answered as" "answered (Some bs # as) = bs @ answered as"
  by (simp_all add: answered_def)

definition pager_idle :: "u32 \<Rightarrow> pager_child" where
  "pager_idle n = \<lparr> pg_reading_size = True, pg_reading_file = False, pg_num_bytes = n, pg_buffer = [] \<rparr>"

definition pager_body :: "u32 \<Rightarrow> u8 list \<Rightarrow> pager_child" where
  "pager_body n bs = \<lparr> pg_reading_size = False, pg_reading_file = True, pg_num_bytes = n, pg_buffer = bs \<rparr>"

lemmas pager_read_defs = on_size_read_def on_file_read_def pager_store_def
  pager_idle_def pager_body_def pager_buffer_size_def

section \<open>The loop handles its reads one by one\<close>

definition reads_of :: "event list \<Rightarrow> u8 list option list" where
  "reads_of es = concat (map (\<lambda>e. case e of Read_fd fd a \<Rightarrow> [a] | _ \<Rightarrow> []) es)"

lemma reads_of_simps [simp]:
  "reads_of [] = []" "reads_of (es @ fs) = reads_of es @ reads_of fs" "reads_of (Read_fd fd a # es) = a # reads_of es"
  "reads_of (Select fd st # es) = reads_of es" "reads_of (Fork r # es) = reads_of es"
  "reads_of (Tcsetpgrp fd p # es) = reads_of es" "reads_of (Waitpid p r # es) = reads_of es"
  "reads_of (Write_fd fd bs # es) = reads_of es"
  by (simp_all add: reads_of_def)

lemma emits_exit [emits_intros]: "emits P (\<lambda>w. io_fault (f w) w)"
  by (auto simp: emits_def io_run)

text \<open>The calls of a loop that has nothing to do: it waits and reads.\<close>

definition waiting :: "int \<Rightarrow> event \<Rightarrow> bool" where
  "waiting fd e \<longleftrightarrow> (\<exists>r. e = Select fd r) \<or> (\<exists>a. e = Read_fd fd a)"

lemma waiting_simps [simp]: "waiting fd (Select fd r)" "waiting fd (Read_fd fd a)"
  by (simp_all add: waiting_def)

text \<open>The second \<open>if\<close> of a round.\<close>

definition file_stage :: "kernel \<Rightarrow> fiveman_pager_fork \<Rightarrow> pager_child \<Rightarrow> pager_child eff" where
  "file_stage k rsrc st =
     io_bind (sys_read k (pf_file_read_fd rsrc) (unat (pg_num_bytes st))) (\<lambda>a.
     io_bind (io_res (on_file_read a st)) (\<lambda>(st', file).
     case file of
       None \<Rightarrow> io_return st'
     | Some f \<Rightarrow> io_then (fiveman_pager_execute k f rsrc) (io_return st')))"

lemma round_extends: "pager_round k rsrc st w = (r, w') \<Longrightarrow> \<exists>es. trace w' = trace w @ es"
proof -
  have "emits (\<lambda>_. True) (pager_round k rsrc st)"
    unfolding pager_round_def fiveman_pager_execute_def
    by (auto intro!: emits_intros split: prod.split option.split)
  then show "pager_round k rsrc st w = (r, w') \<Longrightarrow> \<exists>es. trace w' = trace w @ es" by (auto dest: emitsD)
qed

lemma main_extends: "fiveman_pager_fork_main k rsrc n st w = (r, w') \<Longrightarrow> \<exists>es. trace w' = trace w @ es"
proof (induction n arbitrary: st w)
  case (Suc n)
  obtain r1 w1 where one: "pager_round k rsrc st w = (r1, w1)" by fastforce
  then obtain es where "trace w1 = trace w @ es" using round_extends by blast
  with one Suc show ?case by (cases r1) (fastforce simp: io_run)+
qed (simp add: io_run)

text \<open>A round in which \<open>select\<close> reports nothing, and the others by the state they start in.\<close>

lemma round_idle:
  "pager_round k rsrc (pager_idle m) w =
     (let fd = pf_file_read_fd rsrc; s = k_select k (trace w) fd; w1 = w\<lparr>trace := trace w @ [Select fd s]\<rparr>;
          a = map_option (take 4) (k_read k (trace w1) fd 4); w2 = w1\<lparr>trace := trace w1 @ [Read_fd fd a]\<rparr>
      in if s > 0 then
           case a of None \<Rightarrow> (Ret (pager_idle m), w2)
           | Some bs \<Rightarrow>
               if length bs = 4 then file_stage k rsrc (pager_body (ntohl_bytes bs) []) w2
               else (Ret ((pager_idle m)\<lparr>pg_buffer := bs\<rparr>), w2)
         else (Ret (pager_idle m), w1))"
  by (auto simp: pager_round_def io_simps pager_read_defs file_stage_def Let_def split: option.split)

lemma round_body:
  "pager_round k rsrc (pager_body n b) w =
     (let fd = pf_file_read_fd rsrc; s = k_select k (trace w) fd; w1 = w\<lparr>trace := trace w @ [Select fd s]\<rparr>
      in if s > 0 then file_stage k rsrc (pager_body n b) w1 else (Ret (pager_body n b), w1))"
proof -
  have "pager_round k rsrc (pager_body n b) w = io_bind (sys_select k (pf_file_read_fd rsrc)) (\<lambda>status.
      if status > 0 then file_stage k rsrc (pager_body n b) else io_return (pager_body n b)) w"
    unfolding pager_round_def file_stage_def
    by (rule arg_cong [where f = "\<lambda>g. io_bind (sys_select k (pf_file_read_fd rsrc)) g w"], rule ext)
      (simp add: pager_body_def bind_return_left)
  then show ?thesis by (simp add: io_run sys_run Let_def)
qed

lemma file_stage_body:
  "file_stage k rsrc (pager_body n b) w =
     (let fd = pf_file_read_fd rsrc; a = map_option (take (unat n)) (k_read k (trace w) fd (unat n));
          w1 = w\<lparr>trace := trace w @ [Read_fd fd a]\<rparr>
      in case a of None \<Rightarrow> (Ret (pager_body n b), w1)
         | Some bs \<Rightarrow>
             if pager_buffer_size < length (b @ bs) then (Fault (OutOfBounds ''buffer''), w1)
             else if length (b @ bs) = unat n
             then io_then (fiveman_pager_execute k (buffer_string (b @ bs)) rsrc) (io_return (pager_idle n)) w1
             else (Ret (pager_body n (b @ bs)), w1))"
  by (auto simp: file_stage_def io_simps pager_read_defs Let_def split: option.split)

lemma stage_extends: "file_stage k rsrc st w = (r, w') \<Longrightarrow> \<exists>es. trace w' = trace w @ es"
proof -
  have "emits (\<lambda>_. True) (file_stage k rsrc st)"
    unfolding file_stage_def fiveman_pager_execute_def
    by (auto intro!: emits_intros split: prod.split option.split)
  then show "file_stage k rsrc st w = (r, w') \<Longrightarrow> \<exists>es. trace w' = trace w @ es" by (auto dest: emitsD)
qed

text \<open>A round of the idle loop: nothing to read, or one \<open>read\<close> and what it delivered.\<close>

lemma idle_round:
  assumes "pager_round k rsrc (pager_idle m) w = (r, w')"
  obtains st where "trace w' = trace w @ [Select (pf_file_read_fd rsrc) st]" "r = Ret (pager_idle m)"
  | st a es where "trace w' = trace w @ Select (pf_file_read_fd rsrc) st # Read_fd (pf_file_read_fd rsrc) a # es"
      "a = None \<or> a = Some [] \<Longrightarrow> es = [] \<and> r = Ret (pager_idle m)"
      "\<And>bs. a = Some bs \<Longrightarrow> length bs = 4 \<Longrightarrow> \<exists>v. trace v = trace w @ [Select (pf_file_read_fd rsrc) st, Read_fd (pf_file_read_fd rsrc) a]
         \<and> file_stage k rsrc (pager_body (ntohl_bytes bs) []) v = (r, w')"
proof -
  let ?fd = "pf_file_read_fd rsrc"
  define st where "st = k_select k (trace w) ?fd"
  define w1 where "w1 = w\<lparr>trace := trace w @ [Select ?fd st]\<rparr>"
  define a where "a = map_option (take 4) (k_read k (trace w1) ?fd 4)"
  define w2 where "w2 = w1\<lparr>trace := trace w1 @ [Read_fd ?fd a]\<rparr>"
  note round = round_idle [of k rsrc m w, unfolded Let_def, folded st_def, folded w1_def, folded a_def, folded w2_def]
  have w1: "trace w1 = trace w @ [Select ?fd st]" and w2: "trace w2 = trace w @ [Select ?fd st, Read_fd ?fd a]"
    by (simp_all add: w1_def w2_def)
  show thesis
  proof (cases "st > 0")
    case False
    with assms that(1) w1 show thesis by (simp add: round)
  next
    case True
    show thesis
    proof (cases a)
      case None
      with assms True that(2) [of st a "[]"] w2 show thesis by (simp add: round)
    next
      case (Some bs)
      show thesis
      proof (cases "length bs = 4")
        case four: True
        then have go: "file_stage k rsrc (pager_body (ntohl_bytes bs) []) w2 = (r, w')"
          using assms True Some by (simp add: round)
        from stage_extends [OF this] obtain es where es: "trace w' = trace w2 @ es" by blast
        show thesis
        proof (rule that(2) [of st a es])
          show "es = [] \<and> r = Ret (pager_idle m)" if "a = None \<or> a = Some []" using that Some four by auto
        qed (use es go w2 Some in auto)
      next
        case False
        moreover have "(pager_idle m)\<lparr>pg_buffer := []\<rparr> = pager_idle m" by (simp add: pager_idle_def)
        ultimately show thesis using assms True Some that(2) [of st a "[]"] w2 by (auto simp: round)
      qed
    qed
  qed
qed

lemma main_Suc:
  assumes "fiveman_pager_fork_main k rsrc (Suc n) st w = (r, w')"
  obtains (go) st1 w1 where "pager_round k rsrc st w = (Ret st1, w1)" "fiveman_pager_fork_main k rsrc n st1 w1 = (r, w')"
  | (fault) e where "pager_round k rsrc st w = (Fault e, w')" "r = Fault e"
  using assms by (auto simp: io_run split: prod.splits res.splits)

text \<open>Nothing arrives: the loop stays where it is.\<close>

lemma idle_main:
  "fiveman_pager_fork_main k rsrc n (pager_idle m) w = (r, w') \<Longrightarrow> trace w' = trace w @ es \<Longrightarrow>
   answered (reads_of es) = [] \<Longrightarrow> r = Ret (pager_idle m) \<and> list_all (waiting (pf_file_read_fd rsrc)) es"
proof (induction n arbitrary: w es)
  case 0
  then show ?case by (simp add: io_run)
next
  case (Suc n)
  let ?fd = "pf_file_read_fd rsrc"
  obtain r1 w1 where one: "pager_round k rsrc (pager_idle m) w = (r1, w1)" by fastforce
  obtain fs where fs: "trace w' = trace w1 @ fs"
    using Suc.prems(1) one by (elim main_Suc) (auto dest: main_extends)
  have step: "r1 = Ret (pager_idle m) \<and> (\<exists>gs. trace w1 = trace w @ gs \<and> list_all (waiting ?fd) gs \<and> answered (reads_of gs) = [])"
    using one
  proof (cases rule: idle_round)
    case (1 st)
    then show ?thesis by simp
  next
    case (2 st a gs)
    then have "a = None \<or> a = Some []" using Suc.prems(2,3) fs by (cases a) auto
    with 2(1,2) show ?thesis by auto
  qed
  then obtain gs where gs: "trace w1 = trace w @ gs" "list_all (waiting ?fd) gs" "answered (reads_of gs) = []" by blast
  have run: "fiveman_pager_fork_main k rsrc n (pager_idle m) w1 = (r, w')"
    using Suc.prems(1) one step by (elim main_Suc) auto
  have "es = gs @ fs" using Suc.prems(2) fs gs(1) by simp
  moreover have "answered (reads_of fs) = []" using Suc.prems(3) gs(3) calculation by (simp add: answered_def)
  ultimately show ?case using Suc.IH [OF run fs] gs(2) by simp
qed

text \<open>
  What \<open>fiveman_pager_execute\<close> leaves after its \<open>fork\<close> returned \<open>pid\<close>, and the loop after it when
  nothing more arrives: the forked process runs the pager on \<open>f\<close> and is gone; its parent hands over the
  terminal, waits, confirms and is idle again; after a failed \<open>fork\<close> nothing is confirmed.
\<close>

definition ran_pager ::
  "kernel \<Rightarrow> fiveman_pager_fork \<Rightarrow> string \<Rightarrow> int \<Rightarrow> event list \<Rightarrow> u32 \<Rightarrow> pager_child res \<Rightarrow> bool" where
  "ran_pager k rsrc f pid post n r \<longleftrightarrow>
     (if pid = 0 then post = [Execlp (fiveman_get_pager k) (Some f), Printf] \<and> (\<exists>e. r = Fault (Exited e))
      else r = Ret (pager_idle n)
        \<and> (\<exists>rest. list_all (waiting (pf_file_read_fd rsrc)) rest
             \<and> (if pid > 0
                then \<exists>status. post = [Tcsetpgrp STDIN_FILENO pid, Tcsetpgrp STDOUT_FILENO pid,
                    Tcsetpgrp STDERR_FILENO pid, Waitpid pid status, Write_fd (pf_confirm_write_fd rsrc) [49]] @ rest
                else post = rest)))"

lemma execute_then_idle:
  assumes "io_bind (io_then (fiveman_pager_execute k (Ret f) rsrc) (io_return (pager_idle n)))
      (fiveman_pager_fork_main k rsrc m) w = (r, w')"
    and "trace w' = trace w @ es" "answered (reads_of es) = []"
  shows "\<exists>pid post. es = Fork pid # post \<and> ran_pager k rsrc f pid post n r"
proof -
  define pid where "pid = k_fork k (trace w)"
  consider "pid = 0" | "pid > 0" | "pid < 0" by linarith
  then show ?thesis
  proof cases
    case 1
    with assms(1,2) show ?thesis
      by (auto simp: fiveman_pager_execute_def io_simps pid_def [symmetric] ran_pager_def)
  next
    case 2
    define status where "status = k_waitpid k (trace w @ [Fork pid, Tcsetpgrp STDIN_FILENO pid,
        Tcsetpgrp STDOUT_FILENO pid, Tcsetpgrp STDERR_FILENO pid]) pid"
    let ?es = "[Fork pid, Tcsetpgrp STDIN_FILENO pid, Tcsetpgrp STDOUT_FILENO pid, Tcsetpgrp STDERR_FILENO pid,
      Waitpid pid status, Write_fd (pf_confirm_write_fd rsrc) [49]]"
    have run: "fiveman_pager_fork_main k rsrc m (pager_idle n) (w\<lparr>trace := trace w @ ?es\<rparr>) = (r, w')"
      using assms(1) 2 by (simp add: fiveman_pager_execute_def io_simps pid_def [symmetric] status_def)
    from main_extends [OF run] obtain rest where "trace w' = trace w @ ?es @ rest" by auto
    with assms(2) have es: "es = ?es @ rest" by simp
    then have "answered (reads_of rest) = []" using assms(3) by simp
    with idle_main [OF run, of rest] assms(2) es
    have "r = Ret (pager_idle n) \<and> list_all (waiting (pf_file_read_fd rsrc)) rest" by simp
    with 2 es show ?thesis by (auto simp: ran_pager_def)
  next
    case 3
    have run: "fiveman_pager_fork_main k rsrc m (pager_idle n) (w\<lparr>trace := trace w @ [Fork pid]\<rparr>) = (r, w')"
      using assms(1) 3 by (simp add: fiveman_pager_execute_def io_simps pid_def [symmetric])
    from main_extends [OF run] obtain rest where "trace w' = trace w @ [Fork pid] @ rest" by auto
    with assms(2) have es: "es = Fork pid # rest" by simp
    then have "answered (reads_of rest) = []" using assms(3) by simp
    with idle_main [OF run, of rest] assms(2) es
    have "r = Ret (pager_idle n) \<and> list_all (waiting (pf_file_read_fd rsrc)) rest" by simp
    with 3 es show ?thesis by (auto simp: ran_pager_def)
  qed
qed

text \<open>The loop has received the bytes \<open>b\<close> of a path that the coming reads complete.\<close>

definition completes :: "kernel \<Rightarrow> fiveman_pager_fork \<Rightarrow> string \<Rightarrow> u8 list \<Rightarrow> event list \<Rightarrow> pager_child res \<Rightarrow> bool" where
  "completes k rsrc f b es r \<longleftrightarrow>
     (\<exists>pre pid post. es = pre @ Fork pid # post \<and> list_all (waiting (pf_file_read_fd rsrc)) pre
        \<and> b @ answered (reads_of pre) = bytes_of f
        \<and> ran_pager k rsrc f pid post (word_of_nat (length f)) r)"

lemma completes_Cons:
  "completes k rsrc f (b @ answered (reads_of [e])) es r \<Longrightarrow> waiting (pf_file_read_fd rsrc) e \<Longrightarrow>
   completes k rsrc f b (e # es) r"
proof -
  assume "completes k rsrc f (b @ answered (reads_of [e])) es r" "waiting (pf_file_read_fd rsrc) e"
  moreover have "answered (reads_of (e # pre)) = answered (reads_of [e]) @ answered (reads_of pre)" for pre
    by (simp add: answered_def reads_of_def)
  ultimately show "completes k rsrc f b (e # es) r"
    unfolding completes_def by (metis append.assoc append_Cons list.pred_inject(2))
qed

lemma path_string: "length f < pager_buffer_size \<Longrightarrow> CHR 0x00 \<notin> set f \<Longrightarrow> buffer_string (bytes_of f) = Ret f"
  by (simp add: buffer_string_def text_bytes cstr_id)

lemma stage_completes:
  assumes fits: "length f < pager_buffer_size" and plain: "CHR 0x00 \<notin> set f" and size_of: "size' = word_of_nat (length f)"
    and IH: "\<And>b w es. fiveman_pager_fork_main k rsrc m (pager_body size' b) w = (r, w') \<Longrightarrow>
      trace w' = trace w @ es \<Longrightarrow> b @ answered (reads_of es) = bytes_of f \<Longrightarrow> length b < length f \<Longrightarrow>
      completes k rsrc f b es r"
    and run: "io_bind (file_stage k rsrc (pager_body size' b)) (fiveman_pager_fork_main k rsrc m) w = (r, w')"
    and tr: "trace w' = trace w @ es" and all: "b @ answered (reads_of es) = bytes_of f" and more: "length b < length f"
  shows "completes k rsrc f b es r"
proof -
  have "length f < 2 ^ 32" using fits by (simp add: pager_buffer_size_def)
  then have unat_size: "unat size' = length f" by (simp add: size_of unat_of_nat)
  let ?fd = "pf_file_read_fd rsrc"
  define a where "a = map_option (take (unat size')) (k_read k (trace w) ?fd (unat size'))"
  let ?w1 = "w\<lparr>trace := trace w @ [Read_fd ?fd a]\<rparr>"
  note stage = file_stage_body [of k rsrc size' b w, unfolded Let_def, folded a_def]
  show ?thesis
  proof (cases a)
    case None
    then have go: "fiveman_pager_fork_main k rsrc m (pager_body size' b) ?w1 = (r, w')"
      using run by (simp add: io_run stage)
    from main_extends [OF go] tr obtain fs where fs: "es = Read_fd ?fd a # fs" by auto
    then have "completes k rsrc f b fs r" using tr all None by (intro IH [OF go _ _ more]) simp_all
    then show ?thesis unfolding fs using None by (intro completes_Cons) simp_all
  next
    case (Some bs)
    obtain r1 v where one: "file_stage k rsrc (pager_body size' b) w = (r1, v)" by fastforce
    have exe: "emits (\<lambda>_. True) (io_then (fiveman_pager_execute k g rsrc) (io_return (pager_idle size')))" for g
      unfolding fiveman_pager_execute_def by (auto intro!: emits_intros)
    obtain gs where gs: "trace v = trace ?w1 @ gs"
    proof (cases "pager_buffer_size < length (b @ bs) \<or> length (b @ bs) \<noteq> unat size'")
      case True
      with one stage Some have "v = ?w1" by (auto split: if_splits)
      with that [of "[]"] show thesis by simp
    next
      case False
      with one stage Some have "io_then (fiveman_pager_execute k (buffer_string (b @ bs)) rsrc)
        (io_return (pager_idle size')) ?w1 = (r1, v)" by simp
      from emitsD [OF exe this] that show thesis by blast
    qed
    obtain fs where fs: "es = Read_fd ?fd a # fs"
    proof (cases r1)
      case (Ret st1)
      with one run have "fiveman_pager_fork_main k rsrc m st1 v = (r, w')" by (simp add: io_run(4))
      with gs tr that show thesis by (auto dest!: main_extends)
    next
      case (Fault e)
      with one run gs tr that show thesis by (auto simp: io_run(4))
    qed
    then have rest: "(b @ bs) @ answered (reads_of fs) = bytes_of f" using all Some by simp
    then have len: "length (b @ bs) + length (answered (reads_of fs)) = length f"
      by (metis length_append length_bytes_of)
    show ?thesis
    proof (cases "length (b @ bs) = length f")
      case True
      then have none: "answered (reads_of fs) = []" using len by (metis add_cancel_left_right length_0_conv)
      then have whole: "b @ bs = bytes_of f" using rest by (simp only: append_Nil2)
      have "io_bind (io_then (fiveman_pager_execute k (Ret f) rsrc) (io_return (pager_idle size')))
          (fiveman_pager_fork_main k rsrc m) ?w1 = (r, w')"
        using run Some True fits unfolding whole [symmetric] by (simp add: io_run(4) stage unat_size)
          (simp add: whole [simplified] path_string [OF fits plain])
      from execute_then_idle [OF this, of fs] tr fs none obtain pid post where
        "fs = Fork pid # post" "ran_pager k rsrc f pid post size' r" by auto
      with fs Some whole show ?thesis unfolding completes_def
        by (intro exI [of _ "[Read_fd ?fd a]"] exI [of _ pid] exI [of _ post]) (simp add: size_of)
    next
      case False
      with len have "length (b @ bs) < length f" by linarith
      moreover from this fits have go: "fiveman_pager_fork_main k rsrc m (pager_body size' (b @ bs)) ?w1 = (r, w')"
        using run Some False by (simp add: io_run stage unat_size)
      ultimately have "completes k rsrc f (b @ bs) fs r" using tr fs rest by (intro IH [OF go]) simp_all
      then show ?thesis unfolding fs using Some by (intro completes_Cons) simp_all
    qed
  qed
qed

lemma body_completes:
  assumes fits: "length f < pager_buffer_size" and plain: "CHR 0x00 \<notin> set f" and size_of: "size' = word_of_nat (length f)"
  shows "fiveman_pager_fork_main k rsrc m (pager_body size' b) w = (r, w') \<Longrightarrow> trace w' = trace w @ es \<Longrightarrow>
   b @ answered (reads_of es) = bytes_of f \<Longrightarrow> length b < length f \<Longrightarrow> completes k rsrc f b es r"
proof (induction m arbitrary: b w es)
  case 0
  then have "b = bytes_of f" by (simp add: io_run)
  with 0(4) show ?case by simp
next
  case (Suc m)
  let ?fd = "pf_file_read_fd rsrc"
  define s where "s = k_select k (trace w) ?fd"
  let ?w1 = "w\<lparr>trace := trace w @ [Select ?fd s]\<rparr>"
  note round = round_body [of k rsrc size' b w, unfolded Let_def, folded s_def]
  show ?case
  proof (cases "s > 0")
    case True
    then have run: "io_bind (file_stage k rsrc (pager_body size' b)) (fiveman_pager_fork_main k rsrc m) ?w1 = (r, w')"
      using Suc.prems(1) by (simp add: io_run(4) round)
    obtain fs where fs: "es = Select ?fd s # fs"
      using run Suc.prems(2) by (auto simp: io_run(4) split: prod.splits res.splits dest!: stage_extends main_extends)
    have "completes k rsrc f b fs r"
    proof (rule stage_completes [OF fits plain size_of _ run])
      show "completes k rsrc f b es r" if "fiveman_pager_fork_main k rsrc m (pager_body size' b) w = (r, w')"
        "trace w' = trace w @ es" "b @ answered (reads_of es) = bytes_of f" "length b < length f" for b w es
        using that by (rule Suc.IH)
    qed (use Suc.prems fs in simp_all)
    then show ?thesis unfolding fs by (intro completes_Cons) simp_all
  next
    case False
    then have run: "fiveman_pager_fork_main k rsrc m (pager_body size' b) ?w1 = (r, w')"
      using Suc.prems(1) by (simp add: io_run round)
    from main_extends [OF run] Suc.prems(2) obtain fs where fs: "es = Select ?fd s # fs" by auto
    then have "completes k rsrc f b fs r" using Suc.prems by (intro Suc.IH [OF run]) simp_all
    then show ?thesis unfolding fs by (intro completes_Cons) simp_all
  qed
qed

text \<open>The same from the head of the loop, where the length of the path arrives first.\<close>

lemma idle_completes:
  assumes fits: "length f < pager_buffer_size" and plain: "CHR 0x00 \<notin> set f" and size_of: "size' = word_of_nat (length f)"
    and ne: "f \<noteq> []"
  shows "fiveman_pager_fork_main k rsrc n (pager_idle m) w = (r, w') \<Longrightarrow> trace w' = trace w @ es \<Longrightarrow>
    reads_of es = Some (htonl_bytes size') # as \<Longrightarrow> answered as = bytes_of f \<Longrightarrow>
    \<exists>pre pid post. es = pre @ Fork pid # post \<and> list_all (waiting (pf_file_read_fd rsrc)) pre
      \<and> answered (reads_of pre) = htonl_bytes size' @ bytes_of f \<and> ran_pager k rsrc f pid post size' r"
proof (induction n arbitrary: w es)
  case 0
  then show ?case by (simp add: io_run)
next
  case (Suc n)
  let ?fd = "pf_file_read_fd rsrc"
  obtain r1 w1 where one: "pager_round k rsrc (pager_idle m) w = (r1, w1)" by fastforce
  obtain fs where fs: "trace w' = trace w1 @ fs"
    using Suc.prems(1) one by (elim main_Suc) (auto dest: main_extends)
  show ?case
    using one
  proof (cases rule: idle_round)
    case (1 st)
    then have run: "fiveman_pager_fork_main k rsrc n (pager_idle m) w1 = (r, w')"
      using Suc.prems(1) one by (elim main_Suc) auto
    have es: "es = Select ?fd st # fs" using 1 fs Suc.prems(2) by simp
    then obtain pre pid post where "fs = pre @ Fork pid # post" "list_all (waiting ?fd) pre"
      "answered (reads_of pre) = htonl_bytes size' @ bytes_of f" "ran_pager k rsrc f pid post size' r"
      using Suc.IH [OF run fs] Suc.prems(3,4) by auto
    with es show ?thesis by (intro exI [of _ "Select ?fd st # pre"] exI [of _ pid] exI [of _ post]) simp
  next
    case (2 st a gs)
    then have es: "es = Select ?fd st # Read_fd ?fd a # gs @ fs" using fs Suc.prems(2) by simp
    with Suc.prems(3) have a: "a = Some (htonl_bytes size')" and as: "as = reads_of (gs @ fs)" by auto
    then obtain v where v: "trace v = trace w @ [Select ?fd st, Read_fd ?fd a]"
      "file_stage k rsrc (pager_body size' []) v = (r1, w1)"
      using 2(3) by (auto simp: ntohl_htonl)
    have run: "io_bind (file_stage k rsrc (pager_body size' [])) (fiveman_pager_fork_main k rsrc n) v = (r, w')"
      using Suc.prems(1) one v(2) by (auto simp: io_run(4) elim!: main_Suc)
    have "trace w' = trace v @ gs @ fs" using Suc.prems(2) es v(1) by simp
    moreover have "[] @ answered (reads_of (gs @ fs)) = bytes_of f" using Suc.prems(4) as by simp
    ultimately have "completes k rsrc f [] (gs @ fs) r"
      using stage_completes [OF fits plain size_of body_completes [OF fits plain size_of] run] ne by simp
    then obtain pre pid post where p: "gs @ fs = pre @ Fork pid # post" "list_all (waiting ?fd) pre"
      "answered (reads_of pre) = bytes_of f" "ran_pager k rsrc f pid post size' r"
      by (auto simp: completes_def size_of)
    with es a show ?thesis
      by (intro exI [of _ "Select ?fd st # Read_fd ?fd a # pre"] exI [of _ pid] exI [of _ post]) simp
  qed
qed

lemma pager_start_idle: "pager_start = pager_idle 0"
  by (simp add: pager_start_def pager_idle_def)

lemma confirm_Ret:
  assumes "fiveman_pager_fork_wait_for_confirm k fork w = (Ret (), w')"
  shows "\<exists>h bs. bs \<noteq> [] \<and> trace w' = h @ [Read_fd (pf_confirm_read_fd fork) (Some bs)]"
  using retry_Ret [OF assms [unfolded fiveman_pager_fork_wait_for_confirm_def]]
  by (auto simp: io_simps split: if_splits option.splits)

lemma confirm_calls:
  "emits (\<lambda>e. (\<exists>r. e = Select (pf_confirm_read_fd fork) r) \<or> (\<exists>a. e = Read_fd (pf_confirm_read_fd fork) a))
     (fiveman_pager_fork_wait_for_confirm k fork)"
  unfolding fiveman_pager_fork_wait_for_confirm_def by (auto intro!: emits_intros)

lemma round_eof:
  assumes "k_read k = (\<lambda>_ _ _. Some [])" "\<And>h fd. 0 < k_select k h fd"
  shows "\<exists>w'. pager_round k rsrc (pager_idle n) w = (Ret (pager_idle n), w')"
  using assms by (auto simp: pager_round_def io_simps pager_read_defs)

section \<open>Properties\<close>


definition paging_kernel :: kernel where
  "paging_kernel = quiet_kernel\<lparr>k_read := (\<lambda>_ _ n. if n = 4 then Some (htonl_bytes 1) else Some [97]), k_fork := (\<lambda>_. 0)\<rparr>"

definition example_fork :: fiveman_pager_fork where
  "example_fork = pager_record (3, 4) (5, 6) 9"


text \<open>C30: Paging waits for the confirmation. \<open>fiveman_pager_fork_page_file\<close> sends the length and the path, in this order, and returns only
  when the child has confirmed: it makes no other call than waiting on the confirmation pipe, and the
  last thing it did is read at least one byte there.\<close>

theorem page_file_waits_for_confirm:
  assumes "fiveman_pager_fork_page_file k fork (Some f) w = (Ret (), w')" "length f < 2 ^ 32"
  shows "\<exists>es bs. trace w' = trace w
      @ [Write_fd (pf_file_write_fd fork) (htonl_bytes (word_of_nat (length f))),
         Write_fd (pf_file_write_fd fork) (bytes_of f)]
      @ es @ [Read_fd (pf_confirm_read_fd fork) (Some bs)]
    \<and> bs \<noteq> []
    \<and> list_all (\<lambda>e. (\<exists>r. e = Select (pf_confirm_read_fd fork) r)
        \<or> (\<exists>a. e = Read_fd (pf_confirm_read_fd fork) a)) es"
proof -
  let ?head = "[Write_fd (pf_file_write_fd fork) (htonl_bytes (word_of_nat (length f))),
         Write_fd (pf_file_write_fd fork) (bytes_of f)]"
  have len: "unat (word_of_nat (length f) :: u32) = length f" using assms(2) by (simp add: unat_of_nat)
  have wait: "fiveman_pager_fork_wait_for_confirm k fork (w\<lparr>trace := trace w @ ?head\<rparr>) = (Ret (), w')"
    using assms(1) by (simp add: fiveman_pager_fork_page_file_def io_simps len Let_def)
  obtain es where es: "trace w' = trace w @ ?head @ es" "list_all (\<lambda>e. (\<exists>r. e = Select (pf_confirm_read_fd fork) r)
        \<or> (\<exists>a. e = Read_fd (pf_confirm_read_fd fork) a)) es"
    using emitsD [OF confirm_calls wait] by auto
  obtain h bs where last: "bs \<noteq> []" "trace w' = h @ [Read_fd (pf_confirm_read_fd fork) (Some bs)]"
    using confirm_Ret [OF wait] by blast
  have "es \<noteq> []" using es(1) last by auto
  then obtain es' e where e: "es = es' @ [e]" by (cases es rule: rev_exhaust) auto
  with es(1) last(2) have "e = Read_fd (pf_confirm_read_fd fork) (Some bs)" by auto
  with e es last(1) show ?thesis by (intro exI [of _ es'] exI [of _ bs]) auto
qed

theorem page_file_waits_for_confirm_witness:
  "\<exists>w'. fiveman_pager_fork_page_file quiet_kernel example_fork (Some ''a'') start_world = (Ret (), w')
     \<and> trace w' \<noteq> []"
proof -
  obtain w' where run: "fiveman_pager_fork_page_file quiet_kernel example_fork (Some ''a'') start_world = (Ret (), w')"
    by (simp add: fiveman_pager_fork_page_file_def fiveman_pager_fork_wait_for_confirm_def io_simps
        quiet_kernel_def Let_def)
  from page_file_waits_for_confirm [OF run] have "trace w' \<noteq> []" by auto
  with run show ?thesis by blast
qed

text \<open>C31: A failing \<open>fork\<close> is never confirmed. When the child cannot fork the pager, \<open>fiveman_pager_execute\<close>
  does nothing more, in particular it writes nothing to the confirmation pipe; and a parent whose
  confirmation pipe stays silent never comes back from \<open>fiveman_pager_fork_page_file\<close>.\<close>

theorem pager_fork_failure_hangs:
  "(k_fork k (trace cw) < 0 \<longrightarrow>
     fiveman_pager_execute k path rsrc cw = (Ret (), cw\<lparr>trace := trace cw @ [Fork (k_fork k (trace cw))]\<rparr>))
   \<and> ((\<forall>h. k_select k h (pf_confirm_read_fd fork) \<le> 0) \<longrightarrow>
     (\<exists>w'. fiveman_pager_fork_page_file k fork (Some f) w = (Fault (NeverReturns ''wait_for_confirm''), w')))"
proof (intro conjI impI)
  assume "\<forall>h. k_select k h (pf_confirm_read_fd fork) \<le> 0"
  then have "\<exists>w'. fiveman_pager_fork_wait_for_confirm k fork w = (Fault (NeverReturns ''wait_for_confirm''), w')" for w
    unfolding fiveman_pager_fork_wait_for_confirm_def
    by (intro retry_stuck) (auto simp: io_simps dest: leD)
  then show "\<exists>w'. fiveman_pager_fork_page_file k fork (Some f) w = (Fault (NeverReturns ''wait_for_confirm''), w')"
    by (simp add: fiveman_pager_fork_page_file_def io_simps Let_def)
qed (simp add: fiveman_pager_execute_def io_simps)

theorem pager_fork_failure_hangs_witness:
  "\<exists>w'. fiveman_pager_fork_page_file (quiet_kernel\<lparr>k_select := (\<lambda>_ _. 0)\<rparr>) example_fork (Some ''a'') start_world
     = (Fault (NeverReturns ''wait_for_confirm''), w')"
  using pager_fork_failure_hangs [where k = "quiet_kernel\<lparr>k_select := (\<lambda>_ _. 0)\<rparr>" and fork = example_fork
      and f = "''a''" and w = start_world]
  by simp

text \<open>C32: The child does not notice that fiveman is gone. Once every read reports the end of the pipe, the
  loop goes round for ever without running a pager, storing a byte or exiting.\<close>

theorem pager_child_spins_at_eof:
  assumes "k_read k = (\<lambda>_ _ _. Some [])" "\<And>h fd. 0 < k_select k h fd"
  shows "\<exists>w'. fiveman_pager_fork_main k rsrc n (pager_idle m) w = (Ret (pager_idle m), w')"
proof (induction n arbitrary: w)
  case (Suc n)
  obtain w1 where "pager_round k rsrc (pager_idle m) w = (Ret (pager_idle m), w1)"
    using round_eof [OF assms] by blast
  with Suc.IH [of w1] show ?case by (simp add: io_run)
qed (simp add: io_run)

theorem pager_child_spins_at_eof_witness:
  "\<exists>w'. fiveman_pager_fork_main (quiet_kernel\<lparr>k_read := (\<lambda>_ _ _. Some [])\<rparr>) example_fork 1000 (pager_idle 0) start_world
     = (Ret (pager_idle 0), w')"
  by (rule pager_child_spins_at_eof) (simp_all add: quiet_kernel_def)

end
