(* ===== verification/Fiveman_Process_State.thy ===== *)
theory Fiveman_Process_State
  imports Fiveman_Instruction Fiveman_Statistics Fiveman_Terminal Fiveman_Pager
begin

text \<open>
  \<open>src/fiveman_process_state.c\<close>: one supervised process. Every function that changes the C struct
  returns the changed record; the pointer \<open>next\<close> is the position in a \<open>process_table\<close>. Paths and
  buffers are strings, bounded where the code bounds them.
\<close>

section \<open>Allocation\<close>

definition fiveman_process_state_allocate :: "fiveman_instruction \<Rightarrow> int \<Rightarrow> fiveman_process_state" where
  "fiveman_process_state_allocate instr port =
     \<lparr> ps_instruction = instr, ps_intent = zero_intent\<lparr>pi_intent := INTENT_NONE\<rparr>,
       ps_desired_intent = zero_intent, ps_sample = zero_sample, ps_desired_port = port, ps_pid = 0,
       ps_host_read_fd = 0, ps_child_write_fd = 0, ps_last_state_change = 0, ps_stdout = None,
       ps_stdout_stat = zero_stat, ps_stdout_paged_at = 0, ps_stderr = None,
       ps_stderr_stat = zero_stat, ps_stderr_paged_at = 0, ps_sample_ctxt = None \<rparr>"

text \<open>The body of the loop of \<open>fiveman_process_state_deallocate\<close>, which follows \<open>next\<close> by itself.\<close>

definition deallocate_one :: "kernel \<Rightarrow> fiveman_process_state \<Rightarrow> fiveman_process_state eff" where
  "deallocate_one k ps =
     io_bind (fiveman_teardown_sampling k ps) (\<lambda>ps.
     io_then (sys_note (Unlink (ps_stdout ps))) (
     io_then (sys_note (Unlink (ps_stderr ps))) (
     io_return (ps\<lparr>ps_stdout := None, ps_stderr := None\<rparr>))))"

definition fiveman_process_state_deallocate :: "kernel \<Rightarrow> process_table \<Rightarrow> process_table eff" where
  "fiveman_process_state_deallocate k = walk (deallocate_one k)"

definition fiveman_process_state_clear_sample :: "fiveman_process_state \<Rightarrow> fiveman_process_state" where
  "fiveman_process_state_clear_sample ps = ps\<lparr>ps_sample := zero_sample\<rparr>"

definition fiveman_process_state_set_sample ::
  "fiveman_process_state \<Rightarrow> fiveman_process_statistics_sample \<Rightarrow> fiveman_process_state" where
  "fiveman_process_state_set_sample ps sample = ps\<lparr>ps_sample := sample\<rparr>"

text \<open>
  The template goes through a buffer of 8192 bytes, and \<open>strncpy\<close> copies from it as many characters
  as the untruncated text has: the name is cut at 8191 characters and no more.
\<close>

definition output_path :: "kernel \<Rightarrow> string \<Rightarrow> string \<Rightarrow> string eff" where
  "output_path k name stream =
     (let out = ''/tmp/fiveman-'' @ name @ ''-'' @ stream @ ''.XXXXX'';
          tmp_buf = snprintf_text 8192 out
      in sys_mktemp k (strncpy_text tmp_buf (length out)))"

definition fiveman_process_state_initialize :: "kernel \<Rightarrow> fiveman_process_state \<Rightarrow> fiveman_process_state eff" where
  "fiveman_process_state_initialize k ps =
     io_bind (deref ''name'' (instr_name (ps_instruction ps))) (\<lambda>name.
     io_bind (output_path k name ''stdout'') (\<lambda>out.
     io_bind (output_path k name ''stderr'') (\<lambda>err.
     io_return (fiveman_process_state_clear_sample
       (ps\<lparr>ps_intent := (ps_intent ps)\<lparr>pi_intent := INTENT_START\<rparr>,
           ps_stdout := Some out, ps_stderr := Some err\<rparr>)))))"

section \<open>Starting a process\<close>

text \<open>\<open>environ[i]\<close>; the array ends with a null pointer.\<close>

definition environ_at :: "string list \<Rightarrow> nat \<Rightarrow> string option" where
  "environ_at env i = (if i < length env then Some (env ! i) else None)"

text \<open>\<open>for(int i = 0; c != NULL; c = environ[i++]) esize = i;\<close> from \<open>c = environ[0]\<close>.\<close>

function environ_size :: "string list \<Rightarrow> string option \<Rightarrow> nat \<Rightarrow> nat \<Rightarrow> nat" where
  "environ_size env c i esize =
     (if c = None then esize else environ_size env (environ_at env i) (Suc i) i)"
  by pat_completeness auto
termination
  by (relation "measure (\<lambda>(env, c, i, esize). 2 * (Suc (length env) - i) + (if c = None then 0 else 1))")
    (auto simp: environ_at_def)

declare environ_size.simps [simp del]

text \<open>
  The new environment: \<open>esize + 2\<close> null pointers, the first \<open>esize\<close> entries copied, and the two
  assignments stored at \<open>esize - 1\<close> and \<open>esize\<close>. What the process gets ends at the first null.
\<close>

definition build_environ :: "string list \<Rightarrow> string \<Rightarrow> string \<Rightarrow> string list res" where
  "build_environ env new_path new_port =
     (let esize = environ_size env (environ_at env 0) 0 0;
          new_environ = map Some (take esize env) @ replicate 2 None
      in if esize = 0 then Fault (OutOfBounds ''new_environ'')
         else Ret (map the (takeWhile (\<lambda>e. e \<noteq> None)
                (new_environ[esize - 1 := Some new_path, esize := Some new_port]))))"

definition path_assignment :: "string \<Rightarrow> string \<Rightarrow> string" where
  "path_assignment directory existing_path =
     snprintf_text (length ''PATH='' + length existing_path + length directory + 2)
       (''PATH='' @ directory @ '':'' @ existing_path)"

definition port_assignment :: "int \<Rightarrow> string" where
  "port_assignment port = snprintf_text (length ''PORT='' + 128) (''PORT='' @ dec_int port)"

definition start_request :: "fiveman_process_state \<Rightarrow> string \<Rightarrow> string \<Rightarrow> string list \<Rightarrow> spawn_request" where
  "start_request ps out err new_environ =
     \<lparr> sp_path = ''/bin/sh'',
       sp_argv = ''/bin/sh'' # ''-c'' #
         (case instr_exec (ps_instruction ps) of None \<Rightarrow> [] | Some cmd \<Rightarrow> [cmd]),
       sp_environ = new_environ,
       sp_flags = [POSIX_SPAWN_CLOEXEC_DEFAULT, POSIX_SPAWN_SETSIGDEF, POSIX_SPAWN_RESETIDS, POSIX_SPAWN_SETPGROUP],
       sp_sigdefault = [SIGCHLD, SIGINT, SIGTERM, SIGPIPE], sp_pgroup = Some 0,
       sp_actions = [Addopen STDOUT_FILENO out [O_WRONLY, O_APPEND, O_CREAT] 493,
         Addopen STDERR_FILENO err [O_WRONLY, O_APPEND, O_CREAT] 493,
         Addopen STDIN_FILENO ''/dev/null'' [O_RDONLY] 493] \<rparr>"

definition fiveman_process_state_start ::
  "kernel \<Rightarrow> fiveman_process_state \<Rightarrow> string \<Rightarrow> fiveman_process_state eff" where
  "fiveman_process_state_start k ps directory =
     io_bind (deref ''existing_path'' (getenv (k_environ k) ''PATH'')) (\<lambda>existing_path.
     io_bind (io_res (build_environ (k_environ k) (path_assignment directory existing_path)
                (port_assignment (ps_desired_port ps)))) (\<lambda>new_environ.
     io_bind (deref ''stdout'' (ps_stdout ps)) (\<lambda>out.
     io_bind (deref ''stderr'' (ps_stderr ps)) (\<lambda>err.
     io_bind (sys_spawn k (start_request ps out err new_environ)) (\<lambda>status.
     case status of
       Inl e \<Rightarrow> io_fault (AssertFailed ''posix_status == 0'')
     | Inr subchild \<Rightarrow>
         io_bind (fiveman_teardown_sampling k (fiveman_process_state_clear_sample ps)) (\<lambda>ps1.
         fiveman_init_sampling k (ps1\<lparr>ps_pid := subchild\<rparr>)))))))"

section \<open>Signals and probes\<close>

definition fiveman_process_state_signal :: "kernel \<Rightarrow> fiveman_process_state \<Rightarrow> int \<Rightarrow> int eff" where
  "fiveman_process_state_signal k ps signal =
     io_then (io_when (ps_pid ps > 0) (sys_killpg (ps_pid ps) signal)) (io_return (ps_pid ps))"

definition fiveman_process_state_stop :: "kernel \<Rightarrow> fiveman_process_state \<Rightarrow> int eff" where
  "fiveman_process_state_stop k ps = fiveman_process_state_signal k ps SIGTERM"

definition fiveman_process_state_is_alive :: "kernel \<Rightarrow> fiveman_process_state \<Rightarrow> bool eff" where
  "fiveman_process_state_is_alive k ps =
     (if ps_pid ps > 0 then sys_kill k (ps_pid ps) 0 else io_return False)"

definition fiveman_process_state_reap_zombie_processes ::
  "kernel \<Rightarrow> fiveman_process_state \<Rightarrow> fiveman_process_state eff" where
  "fiveman_process_state_reap_zombie_processes k ps =
     io_then (io_when (ps_pid ps > 0)
       (retry ''waitpid'' (io_bind (sys_waitpid k (ps_pid ps)) (\<lambda>r. io_return (r > 0))) (k_fuel k)))
       (io_return ps)"

section \<open>Sampling\<close>

text \<open>
  \<open>now\<close> is signed and \<open>sample_time\<close> unsigned, so the subtraction and the comparison are those of
  \<open>uint64_t\<close>.
\<close>

definition sample_due :: "int \<Rightarrow> u64 \<Rightarrow> bool" where
  "sample_due now prev_time \<longleftrightarrow> word_of_int now - prev_time \<ge> 1"

definition fiveman_process_state_sample_process ::
  "kernel \<Rightarrow> fiveman_process_state \<Rightarrow> fiveman_process_state eff" where
  "fiveman_process_state_sample_process k ps =
     io_bind (sys_time k) (\<lambda>now.
     if sample_due now (sample_time (ps_sample ps)) then
       io_bind (fiveman_sample_info k ps (ps_sample ps) zero_sample) (\<lambda>(ps, new_sample).
       io_return (fiveman_process_state_set_sample ps new_sample))
     else io_return ps)"

definition fiveman_process_state_child_process_status ::
  "kernel \<Rightarrow> fiveman_process_state \<Rightarrow> fiveman_process_state eff" where
  "fiveman_process_state_child_process_status k ps =
     io_bind (fiveman_process_state_is_alive k ps) (\<lambda>alive.
     if alive then fiveman_process_state_sample_process k ps else io_return ps)"

section \<open>Paging\<close>

definition fiveman_process_state_page_file :: "kernel \<Rightarrow> string option \<Rightarrow> unit eff" where
  "fiveman_process_state_page_file k file =
     (let pager = fiveman_get_pager k
      in io_then suspend_screen (
         io_bind (sys_spawn k \<lparr> sp_path = pager,
             sp_argv = pager # (case file of None \<Rightarrow> [] | Some f \<Rightarrow> [f]),
             sp_environ = k_environ k,
             sp_flags = [POSIX_SPAWN_CLOEXEC_DEFAULT, POSIX_SPAWN_RESETIDS],
             sp_sigdefault = [SIGCHLD, SIGINT, SIGTERM, SIGPIPE], sp_pgroup = None,
             sp_actions = [Addinherit_np STDOUT_FILENO, Addinherit_np STDERR_FILENO,
               Addinherit_np STDIN_FILENO] \<rparr>) (\<lambda>status.
         case status of
           Inl e \<Rightarrow> io_fault (AssertFailed ''posix_status == 0'')
         | Inr subchild \<Rightarrow>
             io_then (sys_note (Tcsetpgrp STDIN_FILENO subchild)) (
             io_then (sys_note (Tcsetpgrp STDOUT_FILENO subchild)) (
             io_then (sys_note (Tcsetpgrp STDERR_FILENO subchild)) (
             io_then (sys_waitpid k subchild) (
             io_then (sys_note Printf) resume_screen)))))))"

definition fiveman_process_state_page_stdout ::
  "kernel \<Rightarrow> fiveman_process_state \<Rightarrow> fiveman_pager_fork \<Rightarrow> fiveman_process_state eff" where
  "fiveman_process_state_page_stdout k ps fork =
     io_then (fiveman_pager_fork_page_file k fork (ps_stdout ps))
       (io_return (ps\<lparr>ps_stdout_paged_at := st_mtime (ps_stdout_stat ps)\<rparr>))"

definition fiveman_process_state_page_stderr ::
  "kernel \<Rightarrow> fiveman_process_state \<Rightarrow> fiveman_pager_fork \<Rightarrow> fiveman_process_state eff" where
  "fiveman_process_state_page_stderr k ps fork =
     io_then (fiveman_pager_fork_page_file k fork (ps_stderr ps))
       (io_return (ps\<lparr>ps_stderr_paged_at := st_mtime (ps_stderr_stat ps)\<rparr>))"

definition fiveman_process_state_stderr_has_new_entries :: "fiveman_process_state \<Rightarrow> bool" where
  "fiveman_process_state_stderr_has_new_entries ps \<longleftrightarrow>
     ps_stderr_paged_at ps \<noteq> st_mtime (ps_stderr_stat ps) \<and> st_size (ps_stderr_stat ps) > 0"

definition fiveman_process_state_stdout_has_new_entries :: "fiveman_process_state \<Rightarrow> bool" where
  "fiveman_process_state_stdout_has_new_entries ps \<longleftrightarrow>
     ps_stdout_paged_at ps \<noteq> st_mtime (ps_stdout_stat ps) \<and> st_size (ps_stdout_stat ps) > 0"

section \<open>Age\<close>

definition SECONDS_PER_YEAR :: int where "SECONDS_PER_YEAR = 31536000"
definition SECONDS_PER_MONTH :: int where "SECONDS_PER_MONTH = 2592000"
definition SECONDS_PER_DAY :: int where "SECONDS_PER_DAY = 86400"
definition SECONDS_PER_HOUR :: int where "SECONDS_PER_HOUR = 3600"
definition SECONDS_PER_MINUTE :: int where "SECONDS_PER_MINUTE = 60"

lemmas second_units = SECONDS_PER_YEAR_def SECONDS_PER_MONTH_def SECONDS_PER_DAY_def
  SECONDS_PER_HOUR_def SECONDS_PER_MINUTE_def

definition fiveman_process_state_lifetime :: "kernel \<Rightarrow> fiveman_process_state \<Rightarrow> int eff" where
  "fiveman_process_state_lifetime k ps =
     io_bind (sys_time k) (\<lambda>cur. io_return (int32 (cur - ps_last_state_change ps)))"

text \<open>The \<open>if\<close> chain of \<open>fiveman_process_state_lifetime_str\<close>: the divisor and the label.\<close>

definition age_unit :: "int \<Rightarrow> int \<times> string" where
  "age_unit distance =
     (if distance sdiv SECONDS_PER_YEAR \<ge> 1 then (SECONDS_PER_YEAR, ''years'')
      else if distance sdiv SECONDS_PER_MONTH \<ge> 1 then (SECONDS_PER_MONTH, ''months'')
      else if distance sdiv SECONDS_PER_DAY \<ge> 1 then (SECONDS_PER_DAY, ''days'')
      else if distance sdiv SECONDS_PER_HOUR \<ge> 1 then (SECONDS_PER_HOUR, ''hours'')
      else if distance sdiv SECONDS_PER_MINUTE \<ge> 1 then (SECONDS_PER_MINUTE, ''minutes'')
      else (1, ''seconds''))"

definition lifetime_text :: "int \<Rightarrow> string" where
  "lifetime_text distance =
     (let (seconds, label) = age_unit distance;
          ratio = dbl (dbl (of_int distance) / dbl (of_int seconds))
      in fmt_f2 ratio @ '' '' @ label)"

definition fiveman_process_state_lifetime_str ::
  "kernel \<Rightarrow> fiveman_process_state \<Rightarrow> nat \<Rightarrow> string eff" where
  "fiveman_process_state_lifetime_str k ps buf_size =
     io_bind (fiveman_process_state_lifetime k ps) (\<lambda>distance.
     io_return (snprintf_text buf_size (lifetime_text distance)))"

section \<open>Converging to the intent\<close>

definition touch_state_change :: "kernel \<Rightarrow> fiveman_process_state \<Rightarrow> fiveman_process_state eff" where
  "touch_state_change k ps =
     io_bind (sys_time k) (\<lambda>t. io_return (ps\<lparr>ps_last_state_change := t\<rparr>))"

definition fiveman_process_state_change_intent ::
  "fiveman_process_state \<Rightarrow> FIVEMAN_INTENT \<Rightarrow> fiveman_process_state" where
  "fiveman_process_state_change_intent ps intent = ps\<lparr>ps_intent := (ps_intent ps)\<lparr>pi_intent := intent\<rparr>\<rparr>"

definition fiveman_process_state_desires_intent ::
  "fiveman_process_state \<Rightarrow> FIVEMAN_INTENT \<Rightarrow> fiveman_process_state" where
  "fiveman_process_state_desires_intent ps intent =
     ps\<lparr>ps_desired_intent := (ps_desired_intent ps)\<lparr>pi_intent := intent\<rparr>\<rparr>"

definition fiveman_process_state_reflect_desired_intent :: "fiveman_process_state \<Rightarrow> fiveman_process_state" where
  "fiveman_process_state_reflect_desired_intent ps =
     ps\<lparr>ps_intent := (ps_intent ps)\<lparr>pi_intent := pi_intent (ps_desired_intent ps)\<rparr>\<rparr>"

definition fiveman_process_state_converge_start ::
  "kernel \<Rightarrow> fiveman_process_state \<Rightarrow> string \<Rightarrow> fiveman_process_state eff" where
  "fiveman_process_state_converge_start k ps directory =
     (if ps_pid ps > 0 then
        io_bind (fiveman_process_state_is_alive k ps) (\<lambda>alive.
        if alive then io_return ps
        else io_bind (fiveman_process_state_start k ps directory) (touch_state_change k))
      else io_bind (fiveman_process_state_start k ps directory) (touch_state_change k))"

definition fiveman_process_state_converge_signal ::
  "kernel \<Rightarrow> fiveman_process_state \<Rightarrow> int \<Rightarrow> fiveman_process_state eff" where
  "fiveman_process_state_converge_signal k ps signal =
     io_then (io_when (ps_pid ps > 0)
       (io_bind (fiveman_process_state_is_alive k ps) (\<lambda>alive.
        io_when alive (io_then (fiveman_process_state_signal k ps signal) (io_return ())))))
       (io_return (fiveman_process_state_change_intent ps INTENT_NONE))"

definition fiveman_process_state_converge_stop ::
  "kernel \<Rightarrow> fiveman_process_state \<Rightarrow> fiveman_process_state eff" where
  "fiveman_process_state_converge_stop k ps =
     (if ps_pid ps > 0 then
        io_bind (fiveman_process_state_is_alive k ps) (\<lambda>alive.
        if alive then io_then (fiveman_process_state_stop k ps) (touch_state_change k ps)
        else io_return ps)
      else io_return ps)"

definition fiveman_process_state_converge_none :: "fiveman_process_state \<Rightarrow> fiveman_process_state eff" where
  "fiveman_process_state_converge_none ps = io_return ps"

text \<open>\<open>stat\<close> into a \<open>struct stat\<close>: on failure the struct is left as it was.\<close>

definition stat_output :: "kernel \<Rightarrow> string option \<Rightarrow> file_stat \<Rightarrow> file_stat eff" where
  "stat_output k path old =
     io_bind (sys_stat k path) (\<lambda>r.
     case r of
       Inl errno \<Rightarrow> io_then (io_assert ''errno != EACCES'' (errno \<noteq> EACCES)) (io_return old)
     | Inr st \<Rightarrow> io_return st)"

definition fiveman_process_state_converge ::
  "kernel \<Rightarrow> fiveman_process_state \<Rightarrow> string \<Rightarrow> fiveman_process_state eff" where
  "fiveman_process_state_converge k ps directory =
     io_bind (stat_output k (ps_stdout ps) (ps_stdout_stat ps)) (\<lambda>out.
     io_bind (stat_output k (ps_stderr ps) (ps_stderr_stat ps)) (\<lambda>err.
     let ps = ps\<lparr>ps_stdout_stat := out, ps_stderr_stat := err\<rparr>
     in case pi_intent (ps_intent ps) of
          INTENT_START \<Rightarrow> fiveman_process_state_converge_start k ps directory
        | INTENT_SIG \<Rightarrow> fiveman_process_state_converge_signal k ps (pi_data (ps_intent ps))
        | INTENT_STOP \<Rightarrow> fiveman_process_state_converge_stop k ps
        | INTENT_NONE \<Rightarrow> fiveman_process_state_converge_none ps))"

section \<open>Display\<close>

definition fiveman_process_state_current_activity ::
  "kernel \<Rightarrow> fiveman_process_state \<Rightarrow> FIVEMAN_PROCESS_CURRENT_ACTIVITY eff" where
  "fiveman_process_state_current_activity k ps =
     (if pi_intent (ps_intent ps) = INTENT_START then
        io_bind (fiveman_process_state_is_alive k ps) (\<lambda>alive.
        io_return (if alive then FIVEMAN_PROCESS_RUNNING else FIVEMAN_PROCESS_STARTING_UP))
      else if pi_intent (ps_intent ps) = INTENT_STOP then
        io_bind (fiveman_process_state_is_alive k ps) (\<lambda>alive.
        io_return (if alive then FIVEMAN_PROCESS_SHUTTING_DOWN else FIVEMAN_PROCESS_STOPPED))
      else io_return FIVEMAN_PROCESS_UNKNOWN)"

text \<open>The result is the text \<open>snprintf\<close> leaves in the buffer and its untruncated length.\<close>

definition fiveman_process_state_status_string ::
  "kernel \<Rightarrow> nat \<Rightarrow> int \<Rightarrow> fiveman_process_state \<Rightarrow> (string \<times> nat) eff" where
  "fiveman_process_state_status_string k buf_len index ps =
     io_bind (if ps_pid ps > 0
              then io_bind (fiveman_process_state_is_alive k ps) (\<lambda>alive.
                   io_return (if alive then ''[ACTIVE]'' else ''[STOPPED]'', ps_pid ps))
              else io_return (''[INACTIVE]'', 0)) (\<lambda>(title, pid).
     io_bind (fiveman_process_state_lifetime_str k ps 1024) (\<lambda>age.
     io_bind (deref ''name'' (instr_name (ps_instruction ps))) (\<lambda>name.
     io_bind (deref ''exec'' (instr_exec (ps_instruction ps))) (\<lambda>cmd.
     let stdout_info = (if fiveman_process_state_stdout_has_new_entries ps then ''[stdout]'' else []);
         stderr_info = (if fiveman_process_state_stderr_has_new_entries ps then ''[stderr]'' else []);
         out = title @ '' ('' @ dec_int pid @ '' for '' @ age @ '') '' @ dec_int index @ ''. '' @ name
           @ '': '' @ cmd @ '' '' @ dec_int (sint (cpu_usage (ps_sample ps))) @ ''% '' @ stdout_info
           @ '' '' @ stderr_info
     in io_return (snprintf_text buf_len out, length out)))))"

section \<open>The environment of a started process\<close>

lemma environ_size_from:
  "i \<le> length env \<Longrightarrow> environ_size env (environ_at env i) (Suc i) i = length env"
proof (induction "length env - i" arbitrary: i)
  case 0
  then show ?case by (subst environ_size.simps) (simp add: environ_at_def)
next
  case (Suc n)
  then have "environ_size env (environ_at env (Suc i)) (Suc (Suc i)) (Suc i) = length env"
    by (intro Suc.hyps) auto
  with Suc show ?case by (subst environ_size.simps) (simp add: environ_at_def)
qed

lemma environ_size_eq: "environ_size env (environ_at env 0) 0 0 = length env"
proof (cases env)
  case (Cons e es)
  then show ?thesis using environ_size_from [of 0 env]
    by (subst environ_size.simps) (simp add: environ_at_def)
qed (subst environ_size.simps, simp add: environ_at_def)

lemma build_environ_eq:
  "env \<noteq> [] \<Longrightarrow> build_environ env new_path new_port = Ret (butlast env @ [new_path, new_port])"
proof -
  assume "env \<noteq> []"
  then obtain es e where e: "env = es @ [e]" by (cases env rule: rev_exhaust) auto
  have "takeWhile (\<lambda>e. e \<noteq> None) (map Some es @ [Some a, Some b, None]) = map Some es @ [Some a, Some b]"
    for a b :: string by (induction es) auto
  then show ?thesis
    by (simp add: build_environ_def environ_size_eq Let_def e list_update_append numeral_2_eq_2 comp_def)
qed

lemma path_assignment_eq: "path_assignment directory path = ''PATH='' @ directory @ '':'' @ path"
  unfolding path_assignment_def by (rule snprintf_text_fits) simp

lemma port_assignment_eq:
  assumes "- (2 ^ 31) \<le> port" "port < 2 ^ 31"
  shows "port_assignment port = ''PORT='' @ dec_int port"
proof -
  have "length (dec_int port) \<le> Suc 10" using assms by (intro length_dec_int) auto
  then show ?thesis unfolding port_assignment_def by (intro snprintf_text_fits) simp
qed

lemma getenv_append:
  "getenv (a @ b) name = (case getenv a name of None \<Rightarrow> getenv b name | Some v \<Rightarrow> Some v)"
  by (induction a) auto

section \<open>What the operations do\<close>

lemma is_alive_run [io_simps]:
  "fiveman_process_state_is_alive k ps w =
     (if ps_pid ps > 0
      then (Ret (k_kill k (trace w) (ps_pid ps) 0),
            w\<lparr>trace := trace w @ [Kill (ps_pid ps) 0 (k_kill k (trace w) (ps_pid ps) 0)]\<rparr>)
      else (Ret False, w))"
  by (simp add: fiveman_process_state_is_alive_def io_simps)

lemma signal_run [io_simps]:
  "fiveman_process_state_signal k ps sig w =
     (Ret (ps_pid ps), if ps_pid ps > 0 then w\<lparr>trace := trace w @ [Killpg (ps_pid ps) sig]\<rparr> else w)"
  by (simp add: fiveman_process_state_signal_def io_simps)

lemma touch_run [io_simps]:
  "touch_state_change k ps w = (Ret (ps\<lparr>ps_last_state_change := k_time k (trace w)\<rparr>),
     w\<lparr>trace := trace w @ [Time (k_time k (trace w))]\<rparr>)"
  by (simp add: touch_state_change_def io_simps)

lemma start_Ret:
  assumes "fiveman_process_state_start k ps directory w = (Ret ps', w')"
  obtains existing out err pid c es where
    "getenv (k_environ k) ''PATH'' = Some existing" "ps_stdout ps = Some out" "ps_stderr ps = Some err"
    "trace w' = trace w @ Spawn (start_request ps out err (butlast (k_environ k)
       @ [''PATH='' @ directory @ '':'' @ existing, port_assignment (ps_desired_port ps)])) (Inr pid) # es"
    "list_all sampling_event es"
    "ps' = ps\<lparr>ps_sample := zero_sample, ps_pid := pid, ps_sample_ctxt := Some c\<rparr>"
proof -
  obtain existing where path: "getenv (k_environ k) ''PATH'' = Some existing"
    using assms by (cases "getenv (k_environ k) ''PATH''") (auto simp: fiveman_process_state_start_def io_simps)
  then have "k_environ k \<noteq> []" by (cases "k_environ k") auto
  note env = build_environ_eq [OF this] path_assignment_eq
  obtain out where out: "ps_stdout ps = Some out"
    using assms path by (cases "ps_stdout ps") (auto simp: fiveman_process_state_start_def io_simps env)
  obtain err where err: "ps_stderr ps = Some err"
    using assms path out by (cases "ps_stderr ps") (auto simp: fiveman_process_state_start_def io_simps env)
  define q where "q = start_request ps out err (butlast (k_environ k)
       @ [''PATH='' @ directory @ '':'' @ existing, port_assignment (ps_desired_port ps)])"
  obtain pid where pid: "k_spawn k (trace w) q = Inr pid"
    using assms path out err
    by (cases "k_spawn k (trace w) q") (auto simp: fiveman_process_state_start_def io_simps env q_def)
  let ?w1 = "w\<lparr>trace := trace w @ [Spawn q (Inr pid)]\<rparr>"
  let ?ps = "fiveman_process_state_clear_sample ps"
  have re: "io_bind (fiveman_teardown_sampling k ?ps) (\<lambda>ps1. fiveman_init_sampling k (ps1\<lparr>ps_pid := pid\<rparr>)) ?w1
      = (Ret ps', w')"
    using assms path out err pid by (simp add: fiveman_process_state_start_def io_simps env q_def)
  obtain c where "ps' = ?ps\<lparr>ps_pid := pid, ps_sample_ctxt := Some c\<rparr>"
    using mac.reattach_Ret [OF re] by blast
  moreover obtain es where "trace w' = trace ?w1 @ es" "list_all sampling_event es"
    using emitsD [OF mac.reattach_calls re] by blast
  ultimately show thesis using that [OF path out err, of pid es c]
    by (simp add: q_def fiveman_process_state_clear_sample_def)
qed

section \<open>Which signals are sent\<close>

text \<open>Every signal or probe goes to the process itself, never to pid 0 or -1.\<close>

definition own_signal :: "int \<Rightarrow> event \<Rightarrow> bool" where
  "own_signal pid e = (case e of Kill p s b \<Rightarrow> p = pid \<and> 0 < p | Killpg p s \<Rightarrow> p = pid \<and> 0 < p | _ \<Rightarrow> True)"

lemma own_signal_simps [simp]:
  "own_signal pid (Kill p s b) \<longleftrightarrow> p = pid \<and> 0 < p" "own_signal pid (Killpg p s) \<longleftrightarrow> p = pid \<and> 0 < p"
  "own_signal pid (Time t)" "own_signal pid (Spawn q r)" "own_signal pid (Stat f st)"
  "own_signal pid (Waitpid p i)" "own_signal pid (Unlink f)" "own_signal pid (Mktemp tm tn)"
  by (simp_all add: own_signal_def)

lemma sampling_own_signal: "sampling_event e \<Longrightarrow> own_signal pid e"
  by (cases e) (auto simp: sampling_event_def own_signal_def)

lemmas emits_sampling_own [emits_intros] =
  emits_mono [OF mac.init_calls sampling_own_signal] emits_mono [OF mac.teardown_calls sampling_own_signal]
  emits_mono [OF mac.sample_calls sampling_own_signal]

lemma emits_case_sum [emits_intros]:
  "(\<And>a. emits P (f a)) \<Longrightarrow> (\<And>b. emits P (g b)) \<Longrightarrow> emits P (case s of Inl a \<Rightarrow> f a | Inr b \<Rightarrow> g b)"
  by (cases s) auto

lemma start_own [emits_intros]: "emits (own_signal pid) (fiveman_process_state_start k ps d)"
  unfolding fiveman_process_state_start_def by (auto intro!: emits_intros)

lemma is_alive_own [emits_intros]: "emits (own_signal (ps_pid ps)) (fiveman_process_state_is_alive k ps)"
  unfolding fiveman_process_state_is_alive_def by (auto intro!: emits_intros)

lemma signal_own [emits_intros]: "emits (own_signal (ps_pid ps)) (fiveman_process_state_signal k ps s)"
  unfolding fiveman_process_state_signal_def by (auto intro!: emits_intros)

lemma converge_own: "emits (own_signal (ps_pid ps)) (fiveman_process_state_converge k ps d)"
proof -
  have start: "emits (own_signal (ps_pid ps)) (fiveman_process_state_converge_start k qs d)"
    and stop: "emits (own_signal (ps_pid ps)) (fiveman_process_state_converge_stop k qs)"
    and sig: "emits (own_signal (ps_pid ps)) (fiveman_process_state_converge_signal k qs s)"
    if e: "ps_pid qs = ps_pid ps" for qs s
    unfolding fiveman_process_state_converge_start_def touch_state_change_def
      fiveman_process_state_converge_stop_def fiveman_process_state_stop_def
      fiveman_process_state_converge_signal_def
    by (auto simp: e [symmetric] intro!: emits_intros)
  show ?thesis
    unfolding fiveman_process_state_converge_def stat_output_def fiveman_process_state_converge_none_def Let_def
    by (cases "pi_intent (ps_intent ps)") (auto intro!: emits_intros start stop sig)
qed

lemma child_status_own:
  "emits (own_signal (ps_pid ps)) (fiveman_process_state_child_process_status k ps)"
  unfolding fiveman_process_state_child_process_status_def fiveman_process_state_sample_process_def
  by (auto intro!: emits_intros split: prod.split)

lemma activity_own: "emits (own_signal (ps_pid ps)) (fiveman_process_state_current_activity k ps)"
  unfolding fiveman_process_state_current_activity_def by (auto intro!: emits_intros)

lemma reap_own: "emits (own_signal (ps_pid ps)) (fiveman_process_state_reap_zombie_processes k ps)"
  unfolding fiveman_process_state_reap_zombie_processes_def by (auto intro!: emits_intros)

text \<open>What no operation on a running table changes.\<close>

definition same_identity :: "fiveman_process_state \<Rightarrow> fiveman_process_state \<Rightarrow> bool" where
  "same_identity ps ps' \<longleftrightarrow> ps_instruction ps' = ps_instruction ps \<and> ps_desired_port ps' = ps_desired_port ps
     \<and> ps_desired_intent ps' = ps_desired_intent ps \<and> ps_stdout ps' = ps_stdout ps \<and> ps_stderr ps' = ps_stderr ps"

lemma same_identity_refl [simp]: "same_identity ps ps"
  by (simp add: same_identity_def)

section \<open>The sampling context is there when it is used\<close>

text \<open>A process that has a pid has a sampling context.\<close>

definition attached :: "fiveman_process_state \<Rightarrow> bool" where
  "attached ps \<longleftrightarrow> (0 < ps_pid ps \<longrightarrow> ps_sample_ctxt ps \<noteq> None)"

lemma attached_updates [simp]:
  "attached (ps\<lparr>ps_intent := a\<rparr>) = attached ps" "attached (ps\<lparr>ps_desired_intent := a\<rparr>) = attached ps"
  "attached (ps\<lparr>ps_last_state_change := t\<rparr>) = attached ps" "attached (ps\<lparr>ps_sample := s\<rparr>) = attached ps"
  "attached (ps\<lparr>ps_stdout_stat := f\<rparr>) = attached ps" "attached (ps\<lparr>ps_stderr_stat := f\<rparr>) = attached ps"
  "attached (ps\<lparr>ps_stdout_paged_at := t\<rparr>) = attached ps" "attached (ps\<lparr>ps_stderr_paged_at := t\<rparr>) = attached ps"
  "attached (ps\<lparr>ps_stdout := p\<rparr>) = attached ps" "attached (ps\<lparr>ps_stderr := p\<rparr>) = attached ps"
  by (simp_all add: attached_def)

lemma sample_process_run:
  assumes "ps_sample_ctxt ps \<noteq> None"
  shows "\<exists>c s w'. fiveman_process_state_sample_process k ps w = (Ret (ps\<lparr>ps_sample_ctxt := Some c, ps_sample := s\<rparr>), w')"
proof -
  let ?w1 = "w\<lparr>trace := trace w @ [Time (k_time k (trace w))]\<rparr>"
  obtain c where c: "ps_sample_ctxt ps = Some c" using assms by blast
  obtain c' s' w' where "fiveman_sample_info k ps (ps_sample ps) zero_sample ?w1
      = (Ret (ps\<lparr>ps_sample_ctxt := Some c'\<rparr>, s'), w')"
    using mac.sample_returns [OF c] by blast
  moreover have "ps\<lparr>ps_sample_ctxt := Some c, ps_sample := ps_sample ps\<rparr> = ps" using c by simp
  ultimately have "\<exists>w' c'' s''. fiveman_process_state_sample_process k ps w
      = (Ret (ps\<lparr>ps_sample_ctxt := Some c'', ps_sample := s''\<rparr>), w')
    \<and> (sample_due (k_time k (trace w)) (sample_time (ps_sample ps)) \<or> c'' = c \<and> s'' = ps_sample ps)"
    by (auto simp: fiveman_process_state_sample_process_def io_simps fiveman_process_state_set_sample_def)
  then show ?thesis by blast
qed

lemma child_status_run:
  assumes "attached ps"
  shows "\<exists>ps' w'. fiveman_process_state_child_process_status k ps w = (Ret ps', w')
    \<and> attached ps' \<and> ps_pid ps' = ps_pid ps \<and> ps_intent ps' = ps_intent ps
    \<and> same_identity ps ps'"
proof (cases "0 < ps_pid ps \<and> k_kill k (trace w) (ps_pid ps) 0")
  case True
  let ?w1 = "w\<lparr>trace := trace w @ [Kill (ps_pid ps) 0 (k_kill k (trace w) (ps_pid ps) 0)]\<rparr>"
  obtain c s w' where "fiveman_process_state_sample_process k ps ?w1
      = (Ret (ps\<lparr>ps_sample_ctxt := Some c, ps_sample := s\<rparr>), w')"
    using sample_process_run assms True unfolding attached_def by blast
  with True show ?thesis
    by (simp add: fiveman_process_state_child_process_status_def io_simps attached_def same_identity_def)
next
  case False
  with assms show ?thesis
    by (auto simp: fiveman_process_state_child_process_status_def io_simps)
qed

section \<open>What converging does\<close>

text \<open>
  The contract: the intent, whether the process was ever started and whether it answers a probe
  decide one action. \<open>deeds\<close> are the calls of a run that act on processes.
\<close>

datatype action = Leave | Launch | Deliver int

definition action_for :: "FIVEMAN_INTENT \<Rightarrow> int \<Rightarrow> bool \<Rightarrow> action" where
  "action_for intent data alive =
     (case intent of
        INTENT_START \<Rightarrow> if alive then Leave else Launch
      | INTENT_SIG \<Rightarrow> if alive then Deliver data else Leave
      | INTENT_STOP \<Rightarrow> if alive then Deliver SIGTERM else Leave
      | INTENT_NONE \<Rightarrow> Leave)"

definition is_deed :: "event \<Rightarrow> bool" where
  "is_deed e = (case e of Spawn q r \<Rightarrow> True | Killpg p s \<Rightarrow> True | _ \<Rightarrow> False)"

definition deeds :: "event list \<Rightarrow> event list" where
  "deeds = filter is_deed"

lemma deeds_simps [simp]:
  "deeds [] = []" "deeds (es @ fs) = deeds es @ deeds fs" "deeds (Spawn q r # es) = Spawn q r # deeds es"
  "deeds (Killpg p s # es) = Killpg p s # deeds es" "deeds (Kill p s b # es) = deeds es"
  "deeds (Time t # es) = deeds es" "deeds (Stat f st # es) = deeds es" "deeds (Waitpid p i # es) = deeds es"
  by (simp_all add: deeds_def is_deed_def)

lemma deeds_sampling: "list_all sampling_event es \<Longrightarrow> deeds es = []"
  unfolding deeds_def list_all_iff filter_empty_conv
  by (auto simp: sampling_event_def is_deed_def split: event.splits)

text \<open>Whether \<open>kill(pid, 0)\<close> succeeded in a run; a process without pid is not alive.\<close>

definition found_alive :: "event list \<Rightarrow> bool" where
  "found_alive es = list_ex (\<lambda>e. case e of Kill p s b \<Rightarrow> b | _ \<Rightarrow> False) es"

lemma found_alive_simps [simp]:
  "\<not> found_alive []" "found_alive (es @ fs) \<longleftrightarrow> found_alive es \<or> found_alive fs"
  "found_alive (Kill p s b # es) \<longleftrightarrow> b \<or> found_alive es" "found_alive (Spawn q r # es) = found_alive es"
  "found_alive (Killpg p s # es) = found_alive es" "found_alive (Time t # es) = found_alive es"
  "found_alive (Stat f st # es) = found_alive es"
  by (simp_all add: found_alive_def)

lemma found_alive_sampling: "list_all sampling_event es \<Longrightarrow> \<not> found_alive es"
  unfolding found_alive_def list_all_iff list_ex_iff
  by (auto simp: sampling_event_def split: event.splits)

text \<open>The outcome of an action: the calls made and the fields that change.\<close>

definition performs :: "kernel \<Rightarrow> string \<Rightarrow> action \<Rightarrow> fiveman_process_state \<Rightarrow> event list \<Rightarrow> fiveman_process_state \<Rightarrow> bool" where
  "performs k directory act ps es ps' =
     (case act of
        Leave \<Rightarrow> deeds es = [] \<and> ps_pid ps' = ps_pid ps \<and> ps_last_state_change ps' = ps_last_state_change ps
      | Launch \<Rightarrow> (\<exists>out err existing pid t.
          deeds es = [Spawn (start_request ps out err (butlast (k_environ k)
             @ [''PATH='' @ directory @ '':'' @ existing, port_assignment (ps_desired_port ps)])) (Inr pid)]
          \<and> ps_stdout ps = Some out \<and> ps_stderr ps = Some err
          \<and> getenv (k_environ k) ''PATH'' = Some existing
          \<and> ps_pid ps' = pid \<and> ps_sample ps' = zero_sample \<and> ps_sample_ctxt ps' \<noteq> None
          \<and> ps_last_state_change ps' = t \<and> last es = Time t)
      | Deliver sig \<Rightarrow> deeds es = [Killpg (ps_pid ps) sig] \<and> 0 < ps_pid ps \<and> ps_pid ps' = ps_pid ps)"

text \<open>
  The exact outcome: \<open>carries_out\<close> gives the calls \<open>acts\<close> of an action and the resulting state, and
  \<open>converges\<close> the calls of the whole function: both output files are looked at, then a process with a pid is
  probed (unless the intent is NONE), then the action is carried out.
\<close>

definition stat_result :: "int + file_stat \<Rightarrow> file_stat \<Rightarrow> file_stat" where
  "stat_result r old = (case r of Inl errno \<Rightarrow> old | Inr st \<Rightarrow> st)"

definition launches :: "kernel \<Rightarrow> string \<Rightarrow> fiveman_process_state \<Rightarrow> event list \<Rightarrow> fiveman_process_state \<Rightarrow> bool" where
  "launches k directory ps acts ps' \<longleftrightarrow> (\<exists>out err existing pid c sampling t.
     getenv (k_environ k) ''PATH'' = Some existing \<and> ps_stdout ps = Some out \<and> ps_stderr ps = Some err
     \<and> acts = Spawn (start_request ps out err (butlast (k_environ k)
          @ [''PATH='' @ directory @ '':'' @ existing, port_assignment (ps_desired_port ps)])) (Inr pid) # sampling @ [Time t]
     \<and> list_all sampling_event sampling
     \<and> ps' = ps\<lparr>ps_sample := zero_sample, ps_pid := pid, ps_sample_ctxt := Some c, ps_last_state_change := t\<rparr>)"

definition carries_out ::
  "kernel \<Rightarrow> string \<Rightarrow> action \<Rightarrow> fiveman_process_state \<Rightarrow> event list \<Rightarrow> fiveman_process_state \<Rightarrow> bool" where
  "carries_out k directory act ps acts ps' =
     (let ended = (if pi_intent (ps_intent ps) = INTENT_SIG
                   then ps\<lparr>ps_intent := (ps_intent ps)\<lparr>pi_intent := INTENT_NONE\<rparr>\<rparr> else ps)
      in case act of
           Leave \<Rightarrow> acts = [] \<and> ps' = ended
         | Launch \<Rightarrow> launches k directory ps acts ps'
         | Deliver sig \<Rightarrow>
             if pi_intent (ps_intent ps) = INTENT_STOP
             then \<exists>t. acts = [Killpg (ps_pid ps) sig, Time t] \<and> ps' = ps\<lparr>ps_last_state_change := t\<rparr>
             else acts = [Killpg (ps_pid ps) sig] \<and> ps' = ended)"

definition probe_of :: "fiveman_process_state \<Rightarrow> bool \<Rightarrow> event list" where
  "probe_of ps alive =
     (if pi_intent (ps_intent ps) \<noteq> INTENT_NONE \<and> 0 < ps_pid ps then [Kill (ps_pid ps) 0 alive] else [])"

text \<open>The answer comes from the system.\<close>

definition probe_answer :: "kernel \<Rightarrow> fiveman_process_state \<Rightarrow> bool \<Rightarrow> bool" where
  "probe_answer k ps alive \<longleftrightarrow> (\<exists>h. alive = k_kill k h (ps_pid ps) 0)"

definition converges :: "kernel \<Rightarrow> string \<Rightarrow> fiveman_process_state \<Rightarrow> event list \<Rightarrow> fiveman_process_state \<Rightarrow> bool" where
  "converges k directory ps es ps' \<longleftrightarrow> (\<exists>out err alive acts.
     es = Stat (ps_stdout ps) out # Stat (ps_stderr ps) err # probe_of ps alive @ acts
     \<and> out \<noteq> Inl EACCES \<and> err \<noteq> Inl EACCES \<and> probe_answer k ps alive
     \<and> carries_out k directory (action_for (pi_intent (ps_intent ps)) (pi_data (ps_intent ps)) (0 < ps_pid ps \<and> alive))
         (ps\<lparr>ps_stdout_stat := stat_result out (ps_stdout_stat ps),
             ps_stderr_stat := stat_result err (ps_stderr_stat ps)\<rparr>) acts ps')"

lemma probe_of_stats [simp]:
  "probe_of (ps\<lparr>ps_stdout_stat := a, ps_stderr_stat := b\<rparr>) alive = probe_of ps alive"
  "probe_answer k (ps\<lparr>ps_stdout_stat := a, ps_stderr_stat := b\<rparr>) alive = probe_answer k ps alive"
  by (simp_all add: probe_of_def probe_answer_def)

lemma launch_run:
  assumes "io_bind (fiveman_process_state_start k ps d) (touch_state_change k) w = (Ret ps', w')"
  shows "\<exists>acts. trace w' = trace w @ acts \<and> launches k d ps acts ps'"
proof -
  obtain ps1 w1 where start: "fiveman_process_state_start k ps d w = (Ret ps1, w1)"
    and touch: "touch_state_change k ps1 w1 = (Ret ps', w')"
    using assms by (blast elim: io_bind_Ret)
  have ps': "ps' = ps1\<lparr>ps_last_state_change := k_time k (trace w1)\<rparr>"
    "trace w' = trace w1 @ [Time (k_time k (trace w1))]"
    using touch by (auto simp: io_simps)
  from start show ?thesis
  proof (rule start_Ret)
    fix existing out err pid c es
    assume a: "getenv (k_environ k) ''PATH'' = Some existing" "ps_stdout ps = Some out" "ps_stderr ps = Some err"
      "trace w1 = trace w @ Spawn (start_request ps out err (butlast (k_environ k)
         @ [''PATH='' @ d @ '':'' @ existing, port_assignment (ps_desired_port ps)])) (Inr pid) # es"
      "list_all sampling_event es"
      "ps1 = ps\<lparr>ps_sample := zero_sample, ps_pid := pid, ps_sample_ctxt := Some c\<rparr>"
    have "launches k d ps (Spawn (start_request ps out err (butlast (k_environ k)
         @ [''PATH='' @ d @ '':'' @ existing, port_assignment (ps_desired_port ps)])) (Inr pid) # es @ [Time (k_time k (trace w1))]) ps'"
      unfolding launches_def
      by (intro exI [of _ out] exI [of _ err] exI [of _ existing] exI [of _ pid] exI [of _ c] exI [of _ es]
          exI [of _ "k_time k (trace w1)"]) (simp add: a ps'(1))
    then show ?thesis using ps'(2) a(4) by (metis append.assoc append_Cons)
  qed
qed

lemma stat_output_Ret:
  assumes "stat_output k path old w = (Ret st, w')"
  shows "\<exists>r. trace w' = trace w @ [Stat path r] \<and> r \<noteq> Inl EACCES \<and> st = stat_result r old"
  using assms by (intro exI [of _ "k_stat k (trace w) path"])
    (auto simp: stat_output_def stat_result_def io_simps split: sum.splits if_splits)

lemmas converge_cases = fiveman_process_state_converge_start_def fiveman_process_state_converge_signal_def
  fiveman_process_state_converge_stop_def fiveman_process_state_stop_def fiveman_process_state_converge_none_def

text \<open>What \<open>converge\<close> does once both output files have been looked at.\<close>

lemma dispatch_run:
  assumes "(case pi_intent (ps_intent ps) of
          INTENT_START \<Rightarrow> fiveman_process_state_converge_start k ps d
        | INTENT_SIG \<Rightarrow> fiveman_process_state_converge_signal k ps (pi_data (ps_intent ps))
        | INTENT_STOP \<Rightarrow> fiveman_process_state_converge_stop k ps
        | INTENT_NONE \<Rightarrow> fiveman_process_state_converge_none ps) w = (Ret ps', w')"
  shows "\<exists>alive acts. trace w' = trace w @ probe_of ps alive @ acts \<and> probe_answer k ps alive
    \<and> carries_out k d (action_for (pi_intent (ps_intent ps)) (pi_data (ps_intent ps)) (0 < ps_pid ps \<and> alive)) ps acts ps'"
proof -
  define b where "b = k_kill k (trace w) (ps_pid ps) 0"
  let ?w1 = "w\<lparr>trace := trace w @ [Kill (ps_pid ps) 0 b]\<rparr>"
  show ?thesis
  proof (cases "pi_intent (ps_intent ps) = INTENT_START \<and> \<not> (0 < ps_pid ps \<and> b)")
    case True
    then have "io_bind (fiveman_process_state_start k ps d) (touch_state_change k) (if 0 < ps_pid ps then ?w1 else w) = (Ret ps', w')"
      using assms by (auto simp: converge_cases io_run sys_run is_alive_run b_def)
    from launch_run [OF this] obtain acts where
      "trace w' = trace (if 0 < ps_pid ps then ?w1 else w) @ acts" "launches k d ps acts ps'" by blast
    with True show ?thesis
      by (intro exI [of _ b] exI [of _ acts]) (auto simp: probe_of_def action_for_def carries_out_def b_def probe_answer_def)
  next
    case False
    have "probe_answer k ps b" unfolding probe_answer_def b_def by blast
    with False show ?thesis
      using assms
      by (cases "pi_intent (ps_intent ps)")
        (auto simp: converge_cases io_simps b_def [symmetric] probe_of_def action_for_def carries_out_def
          fiveman_process_state_change_intent_def split: if_splits intro!: exI [of _ b])
  qed
qed

lemma converge_exact:
  assumes "fiveman_process_state_converge k ps d w = (Ret ps', w')"
  shows "\<exists>es. trace w' = trace w @ es \<and> converges k d ps es ps'"
proof -
  obtain out w1 err w2 where o: "stat_output k (ps_stdout ps) (ps_stdout_stat ps) w = (Ret out, w1)"
    and e: "stat_output k (ps_stderr ps) (ps_stderr_stat ps) w1 = (Ret err, w2)"
    and r: "(let ps = ps\<lparr>ps_stdout_stat := out, ps_stderr_stat := err\<rparr>
     in case pi_intent (ps_intent ps) of
          INTENT_START \<Rightarrow> fiveman_process_state_converge_start k ps d
        | INTENT_SIG \<Rightarrow> fiveman_process_state_converge_signal k ps (pi_data (ps_intent ps))
        | INTENT_STOP \<Rightarrow> fiveman_process_state_converge_stop k ps
        | INTENT_NONE \<Rightarrow> fiveman_process_state_converge_none ps) w2 = (Ret ps', w')"
    using assms unfolding fiveman_process_state_converge_def by (blast elim: io_bind_Ret)
  obtain ro re where st: "trace w2 = trace w @ [Stat (ps_stdout ps) ro, Stat (ps_stderr ps) re]"
    "ro \<noteq> Inl EACCES" "re \<noteq> Inl EACCES" "out = stat_result ro (ps_stdout_stat ps)" "err = stat_result re (ps_stderr_stat ps)"
    using stat_output_Ret [OF o] stat_output_Ret [OF e] by auto
  from dispatch_run [OF r [unfolded Let_def]] obtain alive acts where
    "trace w' = trace w2 @ probe_of ps alive @ acts" "probe_answer k ps alive"
    "carries_out k d (action_for (pi_intent (ps_intent ps)) (pi_data (ps_intent ps)) (0 < ps_pid ps \<and> alive))
       (ps\<lparr>ps_stdout_stat := out, ps_stderr_stat := err\<rparr>) acts ps'"
    by auto
  with st show ?thesis unfolding converges_def
    by (intro exI [of _ "Stat (ps_stdout ps) ro # Stat (ps_stderr ps) re # probe_of ps alive @ acts"]) auto
qed

text \<open>The same by the effects on processes alone.\<close>

lemma carries_out_performs:
  assumes "carries_out k d act ps acts ps'" "act = action_for (pi_intent (ps_intent ps)) (pi_data (ps_intent ps)) (0 < ps_pid ps \<and> alive)"
  shows "deeds pre = [] \<Longrightarrow> performs k d act ps (pre @ acts) ps'"
    and "\<not> found_alive acts" "attached ps \<longrightarrow> attached ps'" "same_identity ps ps'"
    and "ps_intent ps' = (if pi_intent (ps_intent ps) = INTENT_SIG
        then (ps_intent ps)\<lparr>pi_intent := INTENT_NONE\<rparr> else ps_intent ps)"
    and "ps_stdout_stat ps' = ps_stdout_stat ps" "ps_stderr_stat ps' = ps_stderr_stat ps"
  using assms
  by (cases "pi_intent (ps_intent ps)";
      auto simp: carries_out_def launches_def action_for_def performs_def deeds_sampling found_alive_sampling
        attached_def same_identity_def Let_def split: if_splits)+

lemma converge_run:
  assumes "fiveman_process_state_converge k ps d w = (Ret ps', w')"
  shows "\<exists>es. trace w' = trace w @ es
    \<and> performs k d (action_for (pi_intent (ps_intent ps)) (pi_data (ps_intent ps)) (found_alive es)) ps es ps'
    \<and> (attached ps \<longrightarrow> attached ps') \<and> same_identity ps ps'
    \<and> ps_intent ps' = (if pi_intent (ps_intent ps) = INTENT_SIG
        then (ps_intent ps)\<lparr>pi_intent := INTENT_NONE\<rparr> else ps_intent ps)"
proof -
  obtain out err alive acts where tr: "trace w' = trace w @ Stat (ps_stdout ps) out # Stat (ps_stderr ps) err # probe_of ps alive @ acts"
    and c: "carries_out k d (action_for (pi_intent (ps_intent ps)) (pi_data (ps_intent ps)) (0 < ps_pid ps \<and> alive))
         (ps\<lparr>ps_stdout_stat := stat_result out (ps_stdout_stat ps),
             ps_stderr_stat := stat_result err (ps_stderr_stat ps)\<rparr>) acts ps'"
    using converge_exact [OF assms] by (auto simp: converges_def)
  let ?pre = "Stat (ps_stdout ps) out # Stat (ps_stderr ps) err # probe_of ps alive"
  let ?ps = "ps\<lparr>ps_stdout_stat := stat_result out (ps_stdout_stat ps), ps_stderr_stat := stat_result err (ps_stderr_stat ps)\<rparr>"
  have act: "action_for (pi_intent (ps_intent ps)) (pi_data (ps_intent ps)) (0 < ps_pid ps \<and> alive)
    = action_for (pi_intent (ps_intent ?ps)) (pi_data (ps_intent ?ps)) (0 < ps_pid ?ps \<and> alive)" by simp
  note out = carries_out_performs [OF c act]
  have "deeds ?pre = []" by (simp add: probe_of_def)
  then have "performs k d (action_for (pi_intent (ps_intent ps)) (pi_data (ps_intent ps)) (0 < ps_pid ps \<and> alive)) ?ps (?pre @ acts) ps'"
    by (rule out(1))
  then have "performs k d (action_for (pi_intent (ps_intent ps)) (pi_data (ps_intent ps)) (0 < ps_pid ps \<and> alive)) ps (?pre @ acts) ps'"
    by (auto simp: performs_def start_request_def split: action.splits)
  moreover have "action_for (pi_intent (ps_intent ps)) (pi_data (ps_intent ps)) (found_alive (?pre @ acts))
      = action_for (pi_intent (ps_intent ps)) (pi_data (ps_intent ps)) (0 < ps_pid ps \<and> alive)"
    using out(2) by (auto simp: probe_of_def action_for_def)
  moreover have "same_identity ps ps'" using out(4) by (simp add: same_identity_def)
  ultimately show ?thesis using tr out(3,5) by (intro exI [of _ "?pre @ acts"]) simp
qed

section \<open>The age shown\<close>

lemma age_unit_cases:
  assumes "0 \<le> d" "d < 2 ^ 31"
  shows "age_unit d \<in> {(1, ''seconds''), (60, ''minutes''), (3600, ''hours''), (86400, ''days''),
      (2592000, ''months''), (31536000, ''years'')}
    \<and> (fst (age_unit d) = 1 \<or> fst (age_unit d) \<le> d) \<and> d < 69 * fst (age_unit d)"
  using assms unfolding age_unit_def second_units
  by (simp add: sdiv_ge_1_iff split: if_splits; linarith)

lemma fmt_f2_near:
  assumes "0 \<le> x" "x < 69" "\<bar>r - x\<bar> \<le> x / 2 ^ 53" "0 \<le> r"
  shows "\<exists>h. fmt_f2 r = dec_nat (h div 100) @ ''.'' @ digits_w 2 (h mod 100)
    \<and> \<bar>of_nat h - 100 * x\<bar> \<le> 1 / 2 + 1 / 1000000 \<and> h \<le> 6900"
proof -
  define i where "i = round_half_even (r * 100)"
  have err: "\<bar>of_int i - r * 100\<bar> \<le> 1 / 2" unfolding i_def by (rule round_half_even_error)
  with assms(4) have "(- 1 :: rat) < of_int i" by linarith
  then have "of_int (- 1) < (of_int i :: rat)" by simp
  then have i: "0 \<le> i" unfolding of_int_less_iff by simp
  have "x / 2 ^ 53 \<le> 1 / 100000000" using assms(1,2) by simp
  with err assms(3) have near: "\<bar>of_int i - 100 * x\<bar> \<le> 1 / 2 + 1 / 1000000" by linarith
  with assms(2) have "(of_int i :: rat) < 6901" by linarith
  then have "(of_int i :: rat) < of_int 6901" by simp
  then have "i \<le> 6900" unfolding of_int_less_iff by simp
  moreover have "(of_nat (nat i) :: rat) = of_int i" using i by simp
  ultimately show ?thesis using near assms(4) i
    by (intro exI [of _ "nat i"]) (simp add: fmt_f2_def Let_def i_def [symmetric])
qed

lemma lifetime_text_near:
  assumes "0 \<le> d" "d < 2 ^ 31"
  shows "\<exists>h. lifetime_text d = (dec_nat (h div 100) @ ''.'' @ digits_w 2 (h mod 100)) @ '' '' @ snd (age_unit d)
    \<and> \<bar>of_nat h - 100 * (of_int d / of_int (fst (age_unit d))) :: rat\<bar> \<le> 1 / 2 + 1 / 1000000 \<and> h \<le> 6900"
proof -
  obtain u l where ul: "age_unit d = (u, l)" by (cases "age_unit d")
  have u: "0 < u" "u < 2 ^ 53" "d < 69 * u"
    using age_unit_cases [OF assms] unfolding ul by auto
  let ?x = "of_int d / of_int u :: rat"
  have "dbl (of_int d) = of_int d" using assms by (intro dbl_int) auto
  moreover have "dbl (of_int u) = of_int u" using u by (intro dbl_int) auto
  ultimately have t: "lifetime_text d = fmt_f2 (dbl ?x) @ '' '' @ l"
    by (simp add: lifetime_text_def ul)
  have x0: "0 \<le> ?x" using assms u by simp
  have "(of_int d :: rat) < of_int (69 * u)" using u(3) by (simp only: of_int_less_iff)
  then have "?x < 69" using u(1) by (simp add: divide_less_eq)
  from fmt_f2_near [OF x0 this dbl_error [OF x0] dbl_nonneg [OF x0]] show ?thesis
    unfolding t ul by auto
qed

section \<open>Properties\<close>

text \<open>C2: Converging does exactly what the intent, the process id and one probe decide. A run of converge that
  returns made these calls and no others: a \<open>stat\<close> of each output file (neither of which failed with EACCES); one
  \<open>kill(pid, 0)\<close> if the intent is not NONE and there is a pid; and then the calls of the action that \<open>action_for\<close>
  chooses from the intent and from the pid being there and having answered that probe: nothing; one
  launch with the documented request, the calls of the sampler and a look at the clock; or one signal to the process group
  (the stored number under SIG; SIGTERM under STOP, followed by a look at the clock). The resulting state is
  the old one with the two file records (kept on a failed \<open>stat\<close>), a SIG intent ended, and after a launch the new
  pid, a cleared sample and a sampling context.\<close>

theorem converge_refines_action:
  assumes "fiveman_process_state_converge k ps directory w = (Ret ps', w')"
  shows "\<exists>out err alive acts.
      trace w' = trace w @ [Stat (ps_stdout ps) out, Stat (ps_stderr ps) err]
        @ (if pi_intent (ps_intent ps) \<noteq> INTENT_NONE \<and> 0 < ps_pid ps then [Kill (ps_pid ps) 0 alive] else []) @ acts
    \<and> out \<noteq> Inl EACCES \<and> err \<noteq> Inl EACCES
    \<and> carries_out k directory (action_for (pi_intent (ps_intent ps)) (pi_data (ps_intent ps)) (0 < ps_pid ps \<and> alive))
        (ps\<lparr>ps_stdout_stat := stat_result out (ps_stdout_stat ps),
            ps_stderr_stat := stat_result err (ps_stderr_stat ps)\<rparr>) acts ps'"
proof -
  obtain es where "trace w' = trace w @ es" "converges k directory ps es ps'" using converge_exact [OF assms] by blast
  then show ?thesis unfolding converges_def probe_of_def append_Cons append_Nil by blast
qed

theorem converge_refines_action_witness:
  "\<exists>ps' w'. fiveman_process_state_converge (quiet_kernel\<lparr>k_kill := (\<lambda>_ _ _. True)\<rparr>)
      (example_state\<lparr>ps_pid := 7, ps_intent := \<lparr> pi_intent = INTENT_STOP, pi_data = 0 \<rparr>\<rparr>) ''/app'' start_world = (Ret ps', w')
    \<and> Killpg 7 SIGTERM \<in> set (trace w')"
proof -
  let ?k = "quiet_kernel\<lparr>k_kill := (\<lambda>_ _ _. True)\<rparr>"
  let ?ps = "example_state\<lparr>ps_pid := 7, ps_intent := \<lparr> pi_intent = INTENT_STOP, pi_data = 0 \<rparr>\<rparr>"
  let ?es = "[Stat (Some ''/tmp/o'') (Inr zero_stat), Stat (Some ''/tmp/e'') (Inr zero_stat), Kill 7 0 True,
    Killpg 7 SIGTERM, Time 1000]"
  have run: "fiveman_process_state_converge ?k ?ps ''/app'' start_world
      = (Ret (?ps\<lparr>ps_last_state_change := 1000\<rparr>), start_world\<lparr>trace := ?es\<rparr>)"
    by (simp add: fiveman_process_state_converge_def stat_output_def io_simps Let_def quiet_kernel_def
        example_state_def start_world_def fiveman_process_state_converge_stop_def fiveman_process_state_stop_def)
  have "Killpg 7 SIGTERM \<in> set ?es"
    using converge_refines_action [OF run]
    by (auto simp: action_for_def carries_out_def start_world_def)
  with run show ?thesis by auto
qed

text \<open>Fiveman signals and probes nobody else. Whatever \<open>converge\<close>, \<open>child_process_status\<close>,
  \<open>current_activity\<close>, \<open>signal\<close> and the reaping of zombies do, in any order of answers from the system and
  also when they abort, every \<open>kill\<close> and \<open>killpg\<close> they make names the pid stored in the process state
  on entry, and that pid is positive: neither 0 (fiveman's own group) nor -1 (every process).\<close>

theorem signals_only_own_process:
  "emits (own_signal (ps_pid ps)) (fiveman_process_state_converge k ps directory)
   \<and> emits (own_signal (ps_pid ps)) (fiveman_process_state_child_process_status k ps)
   \<and> emits (own_signal (ps_pid ps)) (fiveman_process_state_current_activity k ps)
   \<and> emits (own_signal (ps_pid ps)) (fiveman_process_state_signal k ps sig)
   \<and> emits (own_signal (ps_pid ps)) (fiveman_process_state_reap_zombie_processes k ps)"
  by (intro conjI converge_own child_status_own activity_own signal_own reap_own)

text \<open>C22: Sampling never dereferences a missing context. A newly allocated process has the invariant that
  a pid comes with a sampling context; converging keeps it; and a status round on a process with the
  invariant always returns, keeps the invariant, the pid, the intents and everything else that identifies the entry.\<close>

theorem status_round_never_faults:
  "attached (fiveman_process_state_allocate instr port)
   \<and> (\<forall>ps'. attached ps \<and> fiveman_process_state_converge k ps directory w = (Ret ps', w') \<longrightarrow> attached ps')
   \<and> (attached ps \<longrightarrow> (\<exists>ps' w'. fiveman_process_state_child_process_status k ps w = (Ret ps', w')
        \<and> attached ps' \<and> ps_pid ps' = ps_pid ps \<and> ps_intent ps' = ps_intent ps
        \<and> same_identity ps ps'))"
  using child_status_run converge_run
  by (fastforce simp: attached_def fiveman_process_state_allocate_def)

theorem status_round_never_faults_witness:
  "\<exists>ps' w'. fiveman_process_state_child_process_status (quiet_kernel\<lparr>k_kill := (\<lambda>_ _ _. True)\<rparr>)
     (example_state\<lparr>ps_pid := 7, ps_sample_ctxt := Some zero_sampling_data\<rparr>) start_world = (Ret ps', w')"
proof -
  let ?ps = "example_state\<lparr>ps_pid := 7, ps_sample_ctxt := Some zero_sampling_data\<rparr>"
  have "attached ?ps" by (simp add: attached_def)
  with status_round_never_faults [where k = "quiet_kernel\<lparr>k_kill := (\<lambda>_ _ _. True)\<rparr>" and ps = ?ps
      and w = start_world]
  show ?thesis by blast
qed

text \<open>C14: The environment and command of a started process. A start that returns made one spawn and, beside it, only
  the sampler's calls. The request runs \<open>/bin/sh -c\<close> with the instruction's command in a process group of its own, with the
  four signals reset, close-on-exec by default, effective ids reset, standard output and error appended to the
  two output files (created with mode 0755) and standard input from \<open>/dev/null\<close>. Its
  environment is fiveman's with the last variable dropped (the \<open>PATH\<close> assignment is stored over it) and \<open>PATH\<close> and
  \<open>PORT\<close> added at the end. The first \<open>PATH\<close> entry of that list, the one \<open>getenv\<close> finds, is the extended one only when
  fiveman's own \<open>PATH\<close> was the dropped variable.\<close>

theorem start_environment:
  assumes "fiveman_process_state_start k ps directory w = (Ret ps', w')"
  shows "\<exists>q pid c es old out err. trace w' = trace w @ Spawn q (Inr pid) # es \<and> list_all sampling_event es
    \<and> ps' = ps\<lparr>ps_sample := zero_sample, ps_pid := pid, ps_sample_ctxt := Some c\<rparr>
    \<and> getenv (k_environ k) ''PATH'' = Some old \<and> ps_stdout ps = Some out \<and> ps_stderr ps = Some err
    \<and> sp_path q = ''/bin/sh''
    \<and> sp_argv q = [''/bin/sh'', ''-c''] @ (case instr_exec (ps_instruction ps) of None \<Rightarrow> [] | Some cmd \<Rightarrow> [cmd])
    \<and> sp_flags q = [POSIX_SPAWN_CLOEXEC_DEFAULT, POSIX_SPAWN_SETSIGDEF, POSIX_SPAWN_RESETIDS, POSIX_SPAWN_SETPGROUP]
    \<and> sp_pgroup q = Some 0 \<and> sp_sigdefault q = [SIGCHLD, SIGINT, SIGTERM, SIGPIPE]
    \<and> sp_actions q = [Addopen 1 out [O_WRONLY, O_APPEND, O_CREAT] 493, Addopen 2 err [O_WRONLY, O_APPEND, O_CREAT] 493,
        Addopen 0 ''/dev/null'' [O_RDONLY] 493]
    \<and> sp_environ q = butlast (k_environ k)
        @ [''PATH='' @ directory @ '':'' @ old, port_assignment (ps_desired_port ps)]
    \<and> (- (2 ^ 31) \<le> ps_desired_port ps \<and> ps_desired_port ps < 2 ^ 31
         \<longrightarrow> port_assignment (ps_desired_port ps) = ''PORT='' @ dec_int (ps_desired_port ps))
    \<and> length (sp_environ q) = Suc (length (k_environ k))
    \<and> getenv (sp_environ q) ''PATH'' = Some (if getenv (butlast (k_environ k)) ''PATH'' = None
        then directory @ '':'' @ old else old)"
  using assms
proof (rule start_Ret)
  fix old out err pid c es
  assume a: "getenv (k_environ k) ''PATH'' = Some old" "ps_stdout ps = Some out" "ps_stderr ps = Some err"
    "trace w' = trace w @ Spawn (start_request ps out err (butlast (k_environ k)
         @ [''PATH='' @ directory @ '':'' @ old, port_assignment (ps_desired_port ps)])) (Inr pid) # es"
    "list_all sampling_event es"
    "ps' = ps\<lparr>ps_sample := zero_sample, ps_pid := pid, ps_sample_ctxt := Some c\<rparr>"
  have ne: "k_environ k \<noteq> []" using a(1) by (cases "k_environ k") auto
  then obtain init lst where e: "k_environ k = init @ [lst]" by (cases "k_environ k" rule: rev_exhaust) auto
  have "getenv (butlast (k_environ k) @ [''PATH='' @ directory @ '':'' @ old, port_assignment (ps_desired_port ps)]) ''PATH''
      = Some (if getenv (butlast (k_environ k)) ''PATH'' = None then directory @ '':'' @ old else old)"
    using a(1) by (auto simp: getenv_append e split: option.splits)
  then show ?thesis using a ne
    by (intro exI [of _ "start_request ps out err (butlast (k_environ k)
         @ [''PATH='' @ directory @ '':'' @ old, port_assignment (ps_desired_port ps)])"]
        exI [of _ pid] exI [of _ c] exI [of _ es] exI [of _ old] exI [of _ out] exI [of _ err])
      (simp add: start_request_def port_assignment_eq STDIN_FILENO_def STDOUT_FILENO_def STDERR_FILENO_def)
qed

lemma quiet_init: "\<exists>w'. fiveman_init_sampling quiet_kernel ps w
    = (Ret (ps\<lparr>ps_sample_ctxt := Some (zero_sampling_data\<lparr>fiveman_sampled_task := 3\<rparr>)\<rparr>), w')"
  by (cases "myAuthorizationRef w")
    (simp_all add: fiveman_init_sampling_def authorize_def set_opts_def set_opt_def sys_task_for_pid_def
      sys_call_def io_simps quiet_kernel_def Let_def)

lemma quiet_start: "ps_stdout ps = Some out \<Longrightarrow> ps_stderr ps = Some err \<Longrightarrow>
  \<exists>ps' w'. fiveman_process_state_start quiet_kernel ps d w = (Ret ps', w') \<and> ps_pid ps' = 7"
proof -
  assume a: "ps_stdout ps = Some out" "ps_stderr ps = Some err"
  have env: "k_environ quiet_kernel = [''HOME=/root'', ''PATH=/bin'', ''LANG=C'']"
    by (simp add: quiet_kernel_def)
  have path: "getenv (k_environ quiet_kernel) ''PATH'' = Some ''/bin''" unfolding env by simp
  have ne: "k_environ quiet_kernel \<noteq> []" unfolding env by simp
  have spawn: "k_spawn quiet_kernel h q = Inr 7" for h q by (simp add: quiet_kernel_def)
  obtain w1 where "fiveman_teardown_sampling quiet_kernel (fiveman_process_state_clear_sample ps) (w\<lparr>trace := trace w @
      [Spawn (start_request ps out err (butlast (k_environ quiet_kernel) @
        [path_assignment d ''/bin'', port_assignment (ps_desired_port ps)])) (Inr 7)]\<rparr>)
      = (Ret (fiveman_process_state_clear_sample ps\<lparr>ps_sample_ctxt := None\<rparr>), w1)"
    using teardown_sampling_run by blast
  moreover obtain w2 where "fiveman_init_sampling quiet_kernel
      (fiveman_process_state_clear_sample ps\<lparr>ps_sample_ctxt := None, ps_pid := 7\<rparr>) w1
      = (Ret (fiveman_process_state_clear_sample ps\<lparr>ps_sample_ctxt := None, ps_pid := 7,
          ps_sample_ctxt := Some (zero_sampling_data\<lparr>fiveman_sampled_task := 3\<rparr>)\<rparr>), w2)"
    using quiet_init by blast
  ultimately show ?thesis
    by (simp add: fiveman_process_state_start_def io_simps path spawn a build_environ_eq [OF ne])
qed

theorem start_environment_witness:
  "\<exists>ps' w' q pid es. fiveman_process_state_start quiet_kernel example_state ''/app'' start_world = (Ret ps', w')
     \<and> trace w' = Spawn q (Inr pid) # es \<and> getenv (sp_environ q) ''PATH'' = Some ''/bin''
     \<and> sp_environ q = [''HOME=/root'', ''PATH=/bin'', ''PATH=/app:/bin'', ''PORT=5000'']"
proof -
  obtain ps' w' where run: "fiveman_process_state_start quiet_kernel example_state ''/app'' start_world = (Ret ps', w')"
    using quiet_start [of example_state "''/tmp/o''" "''/tmp/e''" "''/app''" start_world]
    by (force simp: example_state_def)
  have env: "k_environ quiet_kernel = [''HOME=/root'', ''PATH=/bin'', ''LANG=C'']"
    by (simp add: quiet_kernel_def)
  have port: "port_assignment (ps_desired_port example_state) = ''PORT=5000''"
    by (simp add: example_state_def port_assignment_eq dec_int_def dec_nat.simps digit_char_def)
  have tr: "trace start_world = []" by (simp add: start_world_def)
  obtain q pid es old where p: "trace w' = Spawn q (Inr pid) # es"
    "getenv (k_environ quiet_kernel) ''PATH'' = Some old"
    "sp_environ q = butlast (k_environ quiet_kernel) @ [''PATH='' @ ''/app'' @ '':'' @ old,
        port_assignment (ps_desired_port example_state)]"
    "getenv (sp_environ q) ''PATH'' = Some (if getenv (butlast (k_environ quiet_kernel)) ''PATH'' = None
        then ''/app'' @ '':'' @ old else old)"
    using start_environment [OF run] unfolding tr append_Nil by blast
  have old: "old = ''/bin''" using p(2) unfolding env by simp
  have "sp_environ q = [''HOME=/root'', ''PATH=/bin'', ''PATH=/app:/bin'', ''PORT=5000'']"
    using p(3) unfolding env port old by simp
  moreover have "getenv (sp_environ q) ''PATH'' = Some ''/bin''"
    using p(4) unfolding env old by simp
  ultimately show ?thesis using run p(1) by blast
qed

text \<open>C38: The age column. For every age an \<open>int\<close> can hold the text is the age in the largest of the six units
  that is not longer than it, with the label of that unit: whole seconds below a minute (negative ages
  included), otherwise the quotient to two decimals, within half a hundredth and the rounding of the \<open>double\<close>
  division. It is at most 22 characters long, so the column of 30 never cuts it.\<close>

theorem lifetime_text_accurate:
  assumes "- (2 ^ 31) \<le> d" "d < 2 ^ 31"
  shows "(d < 60 \<longrightarrow> lifetime_text d = dec_int d @ ''.00 seconds'')
    \<and> (\<forall>(unit, longer, label) \<in> set [(60, 3600, ''minutes''), (3600, 86400, ''hours''), (86400, 2592000, ''days''),
          (2592000, 31536000, ''months''), (31536000, 2 ^ 31, ''years'')]. unit \<le> d \<and> d < longer \<longrightarrow>
        (\<exists>h. lifetime_text d = dec_nat (h div 100) @ ''.'' @ digits_w 2 (h mod 100) @ '' '' @ label
           \<and> \<bar>of_nat h - 100 * (of_int d / of_int unit) :: rat\<bar> \<le> 1 / 2 + 1 / 1000000))
    \<and> length (lifetime_text d) \<le> 22"
proof (cases "d < 60")
  case True
  have unit: "age_unit d = (1, ''seconds'')"
    using True by (simp add: age_unit_def second_units sdiv_ge_1_iff)
  have "\<bar>d\<bar> < 2 ^ 53" using assms by simp
  then have "dbl (of_int d) = of_int d" by (rule dbl_int_abs)
  then have t: "lifetime_text d = dec_int d @ ''.00 seconds''"
    using dbl_int [of 1] by (simp add: lifetime_text_def unit fmt_f2_int)
  have "\<bar>d\<bar> < 10 ^ 10" using assms by simp
  then have "length (dec_int d) \<le> Suc 10" by (intro length_dec_int) simp_all
  with t True show ?thesis by auto
next
  case False
  then have d: "0 \<le> d" "d < 2 ^ 31" using assms by auto
  obtain h where h: "lifetime_text d = (dec_nat (h div 100) @ ''.'' @ digits_w 2 (h mod 100)) @ '' '' @ snd (age_unit d)"
    "\<bar>of_nat h - 100 * (of_int d / of_int (fst (age_unit d))) :: rat\<bar> \<le> 1 / 2 + 1 / 1000000" "h \<le> 6900"
    using lifetime_text_near [OF d] by blast
  have "length (dec_nat (h div 100)) \<le> 2" using h(3) by (intro length_dec_nat) auto
  moreover have "length (snd (age_unit d)) \<le> 7" using age_unit_cases [OF d] by auto
  ultimately have "length (lifetime_text d) \<le> 22" unfolding h(1) by simp
  moreover have "\<exists>h. lifetime_text d = dec_nat (h div 100) @ ''.'' @ digits_w 2 (h mod 100) @ '' '' @ label
      \<and> \<bar>of_nat h - 100 * (of_int d / of_int unit) :: rat\<bar> \<le> 1 / 2 + 1 / 1000000"
    if "age_unit d = (unit, label)" for unit label
    using h(1,2) that by (intro exI [of _ h]) simp
  moreover have "age_unit d = (unit, label)"
    if "(unit, longer, label) \<in> set [(60, 3600, ''minutes''), (3600, 86400, ''hours''), (86400, 2592000, ''days''),
          (2592000, 31536000, ''months''), (31536000, 2 ^ 31, ''years'')]" "unit \<le> d" "d < longer" for unit longer label
    using that by (auto simp: age_unit_def second_units sdiv_ge_1_iff)
  ultimately show ?thesis using False by fast
qed

theorem lifetime_text_accurate_witness:
  "lifetime_text (- 5) = ''-5.00 seconds'' \<and> (\<exists>n. lifetime_text 90 = n @ '' minutes'')"
proof
  show "lifetime_text (- 5) = ''-5.00 seconds''"
    using lifetime_text_accurate [of "- 5"] by (simp add: dec_int_def dec_nat.simps digit_char_def)
  obtain h where "lifetime_text 90 = dec_nat (h div 100) @ ''.'' @ digits_w 2 (h mod 100) @ '' '' @ ''minutes''"
    using lifetime_text_accurate [of 90] by auto
  then show "\<exists>n. lifetime_text 90 = n @ '' minutes''"
    by (intro exI [of _ "dec_nat (h div 100) @ ''.'' @ digits_w 2 (h mod 100)"]) simp
qed

text \<open>C39: The guard of \<open>sample_process\<close> does not wait a second. The clock is in seconds, the previous
  sample's time in microseconds and the difference is unsigned, so the guard holds unless both numbers
  are equal; a sample taken with the clock at any time from the second second on is followed by another
  at once, at the same second and at every later one before the microsecond count is reached.\<close>

theorem sample_guard_ineffective:
  "(sample_due now prev_time \<longleftrightarrow> prev_time \<noteq> word_of_int now)
   \<and> (0 \<le> now \<and> now < 2 ^ 40 \<and> 0 < tv_sec taken \<and> tv_sec taken < 2 ^ 40 \<and> 0 \<le> tv_usec taken
        \<and> tv_usec taken < 1000000 \<and> now < 1000000 * tv_sec taken
      \<longrightarrow> sample_due now (TimeValToMicroseconds taken))"
proof
  have "1 \<le> x \<longleftrightarrow> x \<noteq> 0" for x :: u64 by (auto simp: word_le_nat_alt Suc_le_eq unat_gt_0)
  then show g: "sample_due now prev_time \<longleftrightarrow> prev_time \<noteq> word_of_int now" for prev_time
    unfolding sample_due_def by (metis eq_iff_diff_eq_0)
  show "0 \<le> now \<and> now < 2 ^ 40 \<and> 0 < tv_sec taken \<and> tv_sec taken < 2 ^ 40 \<and> 0 \<le> tv_usec taken
        \<and> tv_usec taken < 1000000 \<and> now < 1000000 * tv_sec taken
      \<longrightarrow> sample_due now (TimeValToMicroseconds taken)"
  proof
    assume a: "0 \<le> now \<and> now < 2 ^ 40 \<and> 0 < tv_sec taken \<and> tv_sec taken < 2 ^ 40 \<and> 0 \<le> tv_usec taken
        \<and> tv_usec taken < 1000000 \<and> now < 1000000 * tv_sec taken"
    define m where "m = tv_sec taken * 1000000 + tv_usec taken"
    have "m \<noteq> now" "0 \<le> m" "m < 2 ^ 64" "0 \<le> now" "now < 2 ^ 64" using a by (auto simp: m_def)
    then have "(word_of_int m :: u64) \<noteq> word_of_int now"
      by (simp add: word_of_int_eq_iff take_bit_int_eq_self)
    then show "sample_due now (TimeValToMicroseconds taken)"
      unfolding g TimeValToMicroseconds_def kMicrosecondsPerSecond_def m_def .
  qed
qed

theorem sample_guard_ineffective_witness:
  "sample_due 1700000000 (TimeValToMicroseconds \<lparr> tv_sec = 1700000000, tv_usec = 5 \<rparr>)"
  by (rule sample_guard_ineffective [where prev_time = 0, THEN conjunct2, THEN mp]) simp

text \<open>Paging an output marks it as seen, and only that one. When \<open>page_stdout\<close> (or \<open>page_stderr\<close>)
  returns, the process has no new entries on that stream, the flag of the other stream is what it was,
  and nothing else in the state changed but the time stamp; the flag comes back exactly when a later
  \<open>stat\<close> of a non-empty file reports another modification time.\<close>

theorem paging_clears_new_entries:
  "(\<forall>ps' w'. fiveman_process_state_page_stdout k ps fork w = (Ret ps', w') \<longrightarrow>
      \<not> fiveman_process_state_stdout_has_new_entries ps'
      \<and> fiveman_process_state_stderr_has_new_entries ps' = fiveman_process_state_stderr_has_new_entries ps
      \<and> ps' = ps\<lparr>ps_stdout_paged_at := ps_stdout_paged_at ps'\<rparr>
      \<and> (\<forall>st. fiveman_process_state_stdout_has_new_entries (ps'\<lparr>ps_stdout_stat := st\<rparr>)
           \<longleftrightarrow> st_mtime st \<noteq> st_mtime (ps_stdout_stat ps) \<and> 0 < st_size st))
   \<and> (\<forall>ps' w'. fiveman_process_state_page_stderr k ps fork w = (Ret ps', w') \<longrightarrow>
      \<not> fiveman_process_state_stderr_has_new_entries ps'
      \<and> fiveman_process_state_stdout_has_new_entries ps' = fiveman_process_state_stdout_has_new_entries ps
      \<and> ps' = ps\<lparr>ps_stderr_paged_at := ps_stderr_paged_at ps'\<rparr>
      \<and> (\<forall>st. fiveman_process_state_stderr_has_new_entries (ps'\<lparr>ps_stderr_stat := st\<rparr>)
           \<longleftrightarrow> st_mtime st \<noteq> st_mtime (ps_stderr_stat ps) \<and> 0 < st_size st))"
  by (auto simp: fiveman_process_state_page_stdout_def fiveman_process_state_page_stderr_def io_run
      fiveman_process_state_stdout_has_new_entries_def fiveman_process_state_stderr_has_new_entries_def
      split: prod.splits res.splits)

theorem paging_clears_new_entries_witness:
  "\<exists>ps' w'. fiveman_process_state_page_stdout quiet_kernel
      (example_state\<lparr>ps_stdout_stat := \<lparr> st_mtime = 5, st_size = 9 \<rparr>\<rparr>) example_fork start_world = (Ret ps', w')
    \<and> \<not> fiveman_process_state_stdout_has_new_entries ps'"
proof -
  let ?ps = "example_state\<lparr>ps_stdout_stat := \<lparr> st_mtime = 5, st_size = 9 \<rparr>\<rparr>"
  obtain ps' w' where "fiveman_process_state_page_stdout quiet_kernel ?ps example_fork start_world = (Ret ps', w')"
    by (simp add: fiveman_process_state_page_stdout_def fiveman_pager_fork_page_file_def example_state_def
        fiveman_pager_fork_wait_for_confirm_def io_simps quiet_kernel_def Let_def)
  with paging_clears_new_entries [where k = quiet_kernel and ps = ?ps and fork = example_fork and w = start_world]
  show ?thesis by blast
qed

lemma output_path_eq:
  assumes "CHR 0x00 \<notin> set name" "CHR 0x00 \<notin> set stream"
  shows "output_path k name stream
    = sys_mktemp k (take 8191 (''/tmp/fiveman-'' @ name @ ''-'' @ stream @ ''.XXXXX''))"
proof -
  define out where "out = ''/tmp/fiveman-'' @ name @ ''-'' @ stream @ ''.XXXXX''"
  have "CHR 0x00 \<notin> set out" using assms by (simp add: out_def)
  then have "strncpy_text (snprintf_text 8192 out) (length out) = take (8192 - 1) out"
    by (rule strncpy_snprintf)
  moreover have "8192 - 1 = (8191 :: nat)" by simp
  ultimately show ?thesis unfolding output_path_def Let_def out_def [symmetric] by (simp only:)
qed

text \<open>C13: Initialising a process names its two output files and asks for it to be started. For a process with a name it always
  returns; its only calls are \<open>mktemp\<close> on two templates; what these return become the output paths, the intent becomes START, the
  sample is cleared and nothing else changes. The templates are \<open>/tmp/fiveman-NAME-stdout.XXXXX\<close> and
  \<open>/tmp/fiveman-NAME-stderr.XXXXX\<close> cut at 8191 characters, which leaves them different for names of up to 8000.\<close>

theorem initialize_outputs:
  assumes "instr_name (ps_instruction ps) = Some name" "CHR 0x00 \<notin> set name"
  shows "\<exists>t1 t2 out err w'. fiveman_process_state_initialize k ps w
      = (Ret (ps\<lparr>ps_intent := (ps_intent ps)\<lparr>pi_intent := INTENT_START\<rparr>, ps_stdout := Some out,
           ps_stderr := Some err, ps_sample := zero_sample\<rparr>), w')
    \<and> trace w' = trace w @ [Mktemp t1 out, Mktemp t2 err]
    \<and> t1 = take 8191 (''/tmp/fiveman-'' @ name @ ''-'' @ ''stdout'' @ ''.XXXXX'')
    \<and> t2 = take 8191 (''/tmp/fiveman-'' @ name @ ''-'' @ ''stderr'' @ ''.XXXXX'')
    \<and> (length name \<le> 8000 \<longrightarrow> t1 \<noteq> t2)"
proof -
  define t1 where "t1 = take 8191 (''/tmp/fiveman-'' @ name @ ''-'' @ ''stdout'' @ ''.XXXXX'')"
  define t2 where "t2 = take 8191 (''/tmp/fiveman-'' @ name @ ''-'' @ ''stderr'' @ ''.XXXXX'')"
  have o: "output_path k name ''stdout'' = sys_mktemp k t1" "output_path k name ''stderr'' = sys_mktemp k t2"
    unfolding t1_def t2_def by (rule output_path_eq [OF assms(2)], simp)+
  have "t1 \<noteq> t2" if "length name \<le> 8000"
  proof -
    have "t1 = ''/tmp/fiveman-'' @ name @ ''-'' @ ''stdout'' @ ''.XXXXX''"
      "t2 = ''/tmp/fiveman-'' @ name @ ''-'' @ ''stderr'' @ ''.XXXXX''"
      unfolding t1_def t2_def by (rule take_all, use that in simp)+
    then show ?thesis by simp
  qed
  then show ?thesis unfolding t1_def [symmetric] t2_def [symmetric]
    by (simp add: fiveman_process_state_initialize_def assms(1) io_simps fiveman_process_state_clear_sample_def o)
qed

theorem initialize_outputs_witness:
  "\<exists>ps out err w'. fiveman_process_state_initialize quiet_kernel example_state start_world = (Ret ps, w')
     \<and> trace w' = [Mktemp ''/tmp/fiveman-web-stdout.XXXXX'' out, Mktemp ''/tmp/fiveman-web-stderr.XXXXX'' err]
     \<and> pi_intent (ps_intent ps) = INTENT_START"
proof -
  have "instr_name (ps_instruction example_state) = Some ''web''" by (simp add: example_state_def)
  from initialize_outputs [OF this, of quiet_kernel start_world] show ?thesis
    by (auto simp: start_world_def)
qed

end
