(* ===== verification/Fiveman_Procfile.thy ===== *)
theory Fiveman_Procfile
  imports Fiveman_Instruction
begin

text \<open>
  \<open>src/procfile.c\<close>: the chunked scanner that turns a Procfile into the linked list of
  instructions. The parser state is the automatic variables of \<open>parse_procfile\<close> and the store of
  instruction cells. The file is the string of its bytes; a read of 8192 bytes at an offset gives
  the bytes there, and hits the end of the file exactly when fewer are left.
\<close>

section \<open>The scanner\<close>

definition line_size :: nat where "line_size = 8192"

record parser =
  pr_expecting :: char
  pr_parse_head :: nat
  pr_found :: nat
  pr_head :: "nat option"
  pr_cur :: "nat option"
  pr_prev :: "nat option"
  pr_heap :: instr_heap

definition init_parser :: parser where
  "init_parser = \<lparr> pr_expecting = CHR '':'', pr_parse_head = 0, pr_found = 0, pr_head = None,
     pr_cur = None, pr_prev = None, pr_heap = [] \<rparr>"

definition update_instr ::
  "(fiveman_instruction \<Rightarrow> fiveman_instruction) \<Rightarrow> nat option \<Rightarrow> instr_heap \<Rightarrow> instr_heap res" where
  "update_instr f p h = (case p of
       None \<Rightarrow> Fault (NullPointer ''instruction'')
     | Some a \<Rightarrow> (case load_instr h a of
           Fault e \<Rightarrow> Fault e
         | Ret c \<Rightarrow> Ret (h[a := Some (f c)])))"

text \<open>
  The inner loop over \<open>j\<close>: the first character from \<open>parse_head\<close> on that is no blank becomes the
  start of the token; a token of blanks only keeps them.
\<close>

definition is_blank :: "char \<Rightarrow> bool" where
  "is_blank c \<longleftrightarrow> c = CHR '' '' \<or> c = CHR 0x09"

definition skip_blanks :: "string \<Rightarrow> nat \<Rightarrow> nat \<Rightarrow> nat" where
  "skip_blanks line parse_head i =
     (case find (\<lambda>j. \<not> is_blank (line ! j)) [parse_head..<i] of None \<Rightarrow> parse_head | Some j \<Rightarrow> j)"

text \<open>One iteration of the loop over \<open>i\<close>.\<close>

definition parse_char :: "string \<Rightarrow> nat \<Rightarrow> parser \<Rightarrow> parser res" where
  "parse_char line i p =
     (if line ! i = pr_expecting p then
        let start = skip_blanks line (pr_parse_head p) i;
            token = strncpy_text (drop start line) (i - start)
        in if line ! i = CHR '':'' then
             let (cur, h) = fiveman_instruction_allocate (pr_heap p)
             in (case update_instr (\<lambda>c. c\<lparr>instr_name := Some token\<rparr>) (Some cur) h of
                   Fault e \<Rightarrow> Fault e
                 | Ret h1 \<Rightarrow>
                   (case (if pr_prev p \<noteq> None
                          then update_instr (\<lambda>c. c\<lparr>instr_next := Some cur\<rparr>) (pr_prev p) h1
                          else Ret h1) of
                      Fault e \<Rightarrow> Fault e
                    | Ret h2 \<Rightarrow>
                        Ret (p\<lparr>pr_heap := h2, pr_cur := Some cur,
                               pr_head := (if pr_head p = None then Some cur else pr_head p),
                               pr_expecting := CHR 0x0A, pr_parse_head := Suc i\<rparr>)))
           else if line ! i = CHR 0x0A then
             (case update_instr (\<lambda>c. c\<lparr>instr_exec := Some token\<rparr>) (pr_cur p) (pr_heap p) of
                Fault e \<Rightarrow> Fault e
              | Ret h1 \<Rightarrow>
                  Ret (p\<lparr>pr_heap := h1, pr_prev := pr_cur p, pr_found := Suc (pr_found p),
                         pr_expecting := CHR '':'', pr_parse_head := Suc i\<rparr>))
           else Ret (p\<lparr>pr_parse_head := Suc i\<rparr>)
      else Ret p)"

fun parse_chars :: "string \<Rightarrow> nat list \<Rightarrow> parser \<Rightarrow> parser res" where
  "parse_chars line [] p = Ret p"
| "parse_chars line (i # is) p =
     (case parse_char line i p of Fault e \<Rightarrow> Fault e | Ret p' \<Rightarrow> parse_chars line is p')"

definition parse_chunk :: "string \<Rightarrow> parser \<Rightarrow> parser res" where
  "parse_chunk line p = parse_chars line [0..<length line] (p\<lparr>pr_parse_head := 0\<rparr>)"

text \<open>
  The loop over the chunks: each is read again from \<open>total_read\<close>, the end of the last complete
  token.
\<close>

function parse_loop :: "string \<Rightarrow> nat \<Rightarrow> parser \<Rightarrow> parser res" where
  "parse_loop file total_read p =
     (let line = take line_size (drop total_read file)
      in case parse_chunk line p of
           Fault e \<Rightarrow> Fault e
         | Ret p' \<Rightarrow>
             if pr_parse_head p' = 0 then Fault (AssertFailed ''parse_head > 0'')
             else if length line < line_size then Ret p'
             else parse_loop file (total_read + pr_parse_head p') p')"
  by pat_completeness auto
termination
  by (relation "measure (\<lambda>(file, total_read, p). length file - total_read)")
    (auto simp: line_size_def)

declare parse_loop.simps [simp del]

text \<open>\<open>None\<close> is a file that cannot be opened. The result is \<open>*instructions\<close>, \<open>found\<close> and the store.\<close>

definition parse_procfile :: "string option \<Rightarrow> (nat option \<times> nat \<times> instr_heap) res" where
  "parse_procfile file =
     (case file of
        None \<Rightarrow> Fault (AssertFailed ''file != NULL'')
      | Some text \<Rightarrow>
          (case parse_loop text 0 init_parser of
             Fault e \<Rightarrow> Fault e
           | Ret p \<Rightarrow>
               if pr_found p > 0 then
                 if pr_head p \<noteq> None then Ret (pr_head p, pr_found p, pr_heap p)
                 else Fault (AssertFailed ''head != NULL'')
               else
                 if pr_head p = None then Ret (pr_head p, pr_found p, pr_heap p)
                 else Fault (AssertFailed ''head == NULL'')))"

section \<open>The specification: tokens of the whole text\<close>

text \<open>
  Read as a whole, the text is cut at a colon, then at a newline, then at a colon, and so on; what
  follows the last cut is dropped. \<open>tokens e s\<close> are the pieces when the next delimiter is \<open>e\<close>, and
  \<open>consumed e s\<close> is the length of the text up to the last cut.
\<close>

definition other_delim :: "char \<Rightarrow> char" where
  "other_delim e = (if e = CHR '':'' then CHR 0x0A else CHR '':'')"

function tokens :: "char \<Rightarrow> string \<Rightarrow> string list" where
  "tokens e s =
     (case dropWhile (\<lambda>c. c \<noteq> e) s of
        [] \<Rightarrow> []
      | _ # rest \<Rightarrow> takeWhile (\<lambda>c. c \<noteq> e) s # tokens (other_delim e) rest)"
  by pat_completeness auto
termination
  by (relation "measure (\<lambda>(e, s). length s)")
    (auto, metis length_Cons length_dropWhile_le less_eq_Suc_le)

declare tokens.simps [simp del]

definition consumed :: "char \<Rightarrow> string \<Rightarrow> nat" where
  "consumed e s = sum_list (map (\<lambda>t. Suc (length t)) (tokens e s))"

definition delim_after :: "char \<Rightarrow> nat \<Rightarrow> char" where
  "delim_after e n = (if even n then e else other_delim e)"

text \<open>The text of a token: leading blanks are stripped unless it has nothing else.\<close>

definition token_text :: "string \<Rightarrow> string" where
  "token_text t = cstr (if \<forall>c \<in> set t. is_blank c then t else dropWhile is_blank t)"

text \<open>Tokens pair up to instructions; a last token without a partner has no command yet.\<close>

fun entries :: "string list \<Rightarrow> (string \<times> string option) list" where
  "entries [] = []"
| "entries [n] = [(token_text n, None)]"
| "entries (n # e # ts) = (token_text n, Some (token_text e)) # entries ts"

section \<open>The scanner's state as a function of the tokens read\<close>

definition cell_at :: "string list \<Rightarrow> nat \<Rightarrow> fiveman_instruction" where
  "cell_at ts i = \<lparr> instr_name = Some (ts ! (2 * i)),
     instr_exec = (if 2 * i + 1 < length ts then Some (ts ! (2 * i + 1)) else None),
     instr_next = (if 2 * i + 2 < length ts then Some (Suc i) else None) \<rparr>"

definition cells_of :: "string list \<Rightarrow> instr_heap" where
  "cells_of ts = map (\<lambda>i. Some (cell_at ts i)) [0..<Suc (length ts) div 2]"

definition expects :: "string list \<Rightarrow> char" where
  "expects ts = (if even (length ts) then CHR '':'' else CHR 0x0A)"

definition state_of :: "string list \<Rightarrow> nat \<Rightarrow> parser" where
  "state_of ts ph = \<lparr> pr_expecting = expects ts, pr_parse_head = ph, pr_found = length ts div 2,
     pr_head = (if ts = [] then None else Some 0),
     pr_cur = (if ts = [] then None else Some ((length ts - 1) div 2)),
     pr_prev = (if length ts < 2 then None else Some (length ts div 2 - 1)),
     pr_heap = cells_of ts \<rparr>"

lemma init_parser_state_of: "init_parser = state_of [] 0"
  by (simp add: init_parser_def state_of_def cells_of_def expects_def)

lemma state_of_fields [simp]:
  "pr_parse_head (state_of ts ph) = ph"
  "pr_found (state_of ts ph) = length ts div 2"
  "pr_head (state_of ts ph) = (if ts = [] then None else Some 0)"
  "pr_heap (state_of ts ph) = cells_of ts"
  by (simp_all add: state_of_def)

lemma length_cells_of [simp]: "length (cells_of ts) = Suc (length ts) div 2"
  by (simp add: cells_of_def)

lemma cells_of_nth [simp]: "i < Suc (length ts) div 2 \<Longrightarrow> cells_of ts ! i = Some (cell_at ts i)"
  by (simp add: cells_of_def)

lemma load_cells_of: "i < Suc (length ts) div 2 \<Longrightarrow> load_instr (cells_of ts) i = Ret (cell_at ts i)"
  by (simp add: load_instr_Ret)

lemma cells_of_snoc_even:
  assumes "even (length ts)" "ts \<noteq> []"
  shows "cells_of (ts @ [t]) =
    (cells_of ts @ [Some \<lparr> instr_name = Some t, instr_exec = None, instr_next = None \<rparr>])
      [length ts div 2 - 1 :=
         Some ((cell_at ts (length ts div 2 - 1))\<lparr>instr_next := Some (length ts div 2)\<rparr>)]"
proof -
  obtain m where m: "length ts = 2 * Suc m"
    using assms by (metis dvdE length_0_conv mult_zero_right not0_implies_Suc)
  show ?thesis
  proof (rule nth_equalityI)
    fix i assume "i < length (cells_of (ts @ [t]))"
    with m have "i < Suc (Suc m)" by simp
    then consider "i < m" | "i = m" | "i = Suc m" by linarith
    then show "cells_of (ts @ [t]) ! i = (cells_of ts @ [Some \<lparr> instr_name = Some t,
        instr_exec = None, instr_next = None \<rparr>]) [length ts div 2 - 1 :=
         Some ((cell_at ts (length ts div 2 - 1))\<lparr>instr_next := Some (length ts div 2)\<rparr>)] ! i"
      by cases (auto simp: m nth_append cell_at_def nth_list_update)
  qed (simp add: m)
qed

lemma cells_of_snoc_odd:
  assumes "odd (length ts)"
  shows "cells_of (ts @ [t]) =
    (cells_of ts)[(length ts - 1) div 2 := Some ((cell_at ts ((length ts - 1) div 2))\<lparr>instr_exec := Some t\<rparr>)]"
proof -
  obtain m where m: "length ts = Suc (2 * m)" using assms by (metis oddE Suc_eq_plus1)
  show ?thesis
  proof (rule nth_equalityI)
    fix i assume "i < length (cells_of (ts @ [t]))"
    with m have "i < m \<or> i = m" by auto
    then show "cells_of (ts @ [t]) ! i = (cells_of ts)[(length ts - 1) div 2 :=
        Some ((cell_at ts ((length ts - 1) div 2))\<lparr>instr_exec := Some t\<rparr>)] ! i"
      by (auto simp: m nth_append cell_at_def nth_list_update)
  qed (simp add: m)
qed

lemma parse_char_other:
  "line ! i \<noteq> expects ts \<Longrightarrow> parse_char line i (state_of ts ph) = Ret (state_of ts ph)"
  by (simp add: parse_char_def state_of_def)

lemma parse_char_delim:
  assumes "line ! i = expects ts"
  shows "parse_char line i (state_of ts ph) =
    Ret (state_of (ts @ [strncpy_text (drop (skip_blanks line ph i) line) (i - skip_blanks line ph i)])
           (Suc i))"
proof (cases "even (length ts)")
  case True
  then have colon: "line ! i = CHR '':''" using assms by (simp add: expects_def)
  show ?thesis
  proof (cases "ts = []")
    case True
    then show ?thesis using colon
      by (simp add: parse_char_def state_of_def expects_def fiveman_instruction_allocate_def
          update_instr_def load_instr_def zero_instruction_def cells_of_def cell_at_def Let_def)
  next
    case False
    with True obtain m where m: "length ts = 2 * Suc m"
      by (metis dvdE length_0_conv mult_zero_right not0_implies_Suc)
    show ?thesis using colon True False m
      by (simp add: parse_char_def state_of_def expects_def fiveman_instruction_allocate_def
          update_instr_def load_instr_def zero_instruction_def Let_def nth_append
          cells_of_snoc_even list_update_append)
  qed
next
  case False
  then obtain m where m: "length ts = Suc (2 * m)" by (metis oddE Suc_eq_plus1)
  then have "ts \<noteq> []" by auto
  with False m assms show ?thesis
    by (simp add: parse_char_def state_of_def expects_def update_instr_def load_instr_def
        Let_def cells_of_snoc_odd)
qed

section \<open>Tokens\<close>

lemma tokens_Nil: "e \<notin> set s \<Longrightarrow> tokens e s = []"
  by (subst tokens.simps) (auto split: list.splits simp: dropWhile_eq_Cons_conv dest: arg_cong [of _ _ set])

lemma tokens_Cons: "e \<notin> set a \<Longrightarrow> tokens e (a @ e # b) = a # tokens (other_delim e) b"
proof (subst tokens.simps)
  assume "e \<notin> set a"
  then have "takeWhile (\<lambda>c. c \<noteq> e) (a @ e # b) = a" "dropWhile (\<lambda>c. c \<noteq> e) (a @ e # b) = e # b"
    by (induction a) auto
  then show "(case dropWhile (\<lambda>c. c \<noteq> e) (a @ e # b) of [] \<Rightarrow> []
      | _ # rest \<Rightarrow> takeWhile (\<lambda>c. c \<noteq> e) (a @ e # b) # tokens (other_delim e) rest)
    = a # tokens (other_delim e) b" by simp
qed

lemma split_at_delim: "e \<in> set s \<Longrightarrow> \<exists>a b. s = a @ e # b \<and> e \<notin> set a"
  by (meson split_list_first)

lemma consumed_Nil: "e \<notin> set s \<Longrightarrow> consumed e s = 0"
  by (simp add: consumed_def tokens_Nil)

lemma consumed_Cons: "e \<notin> set a \<Longrightarrow> consumed e (a @ e # b) = Suc (length a) + consumed (other_delim e) b"
  by (simp add: consumed_def tokens_Cons)

lemma tokens_cases [case_names none some]:
  assumes "e \<notin> set s \<Longrightarrow> P"
    and "\<And>a b. s = a @ e # b \<Longrightarrow> e \<notin> set a \<Longrightarrow> P"
  shows P
proof (cases "e \<in> set s")
  case True
  then show P using split_at_delim assms(2) by metis
qed (rule assms(1))

lemma consumed_le: "consumed e s \<le> length s"
proof (induction s arbitrary: e rule: length_induct)
  case (1 s)
  show ?case
  proof (rule tokens_cases [of e s])
    assume "e \<notin> set s" then show ?thesis by (simp add: consumed_Nil)
  next
    fix a b assume s: "s = a @ e # b" "e \<notin> set a"
    with "1.IH" have "consumed (other_delim e) b \<le> length b" by simp
    with s show ?thesis by (simp add: consumed_Cons)
  qed
qed

lemma other_delim_delim: "e = CHR '':'' \<or> e = CHR 0x0A \<Longrightarrow> other_delim (other_delim e) = e"
  by (auto simp: other_delim_def)

lemma tokens_append:
  assumes "e = CHR '':'' \<or> e = CHR 0x0A"
  shows "tokens e (a @ b) =
    tokens e a @ tokens (delim_after e (length (tokens e a))) (drop (consumed e a) a @ b)"
  using assms
proof (induction a arbitrary: e rule: length_induct)
  case (1 a)
  have o: "other_delim e = CHR '':'' \<or> other_delim e = CHR 0x0A" by (simp add: other_delim_def)
  show ?case
  proof (rule tokens_cases [of e a])
    assume "e \<notin> set a" then show ?thesis by (simp add: tokens_Nil consumed_Nil delim_after_def)
  next
    fix u v assume a: "a = u @ e # v" "e \<notin> set u"
    then have "length v < length a" by simp
    from "1.IH" [rule_format, OF this o] have
      "tokens (other_delim e) (v @ b) = tokens (other_delim e) v
         @ tokens (delim_after (other_delim e) (length (tokens (other_delim e) v)))
             (drop (consumed (other_delim e) v) v @ b)" .
    then show ?thesis
      using a tokens_Cons [of e u "v @ b"] "1.prems"
      by (simp add: tokens_Cons consumed_Cons delim_after_def other_delim_delim)
  qed
qed

section \<open>A chunk reads the tokens of its text\<close>

lemma find_upt_blank:
  assumes "i \<le> length line" "ph \<le> i"
  shows "find (\<lambda>j. \<not> is_blank (line ! j)) [ph..<i] =
    (if \<forall>c \<in> set (take (i - ph) (drop ph line)). is_blank c then None
     else Some (ph + length (takeWhile is_blank (take (i - ph) (drop ph line)))))"
  using assms(2)
proof (induction ph rule: inc_induct)
  case base
  then show ?case by simp
next
  case (step n)
  with assms(1) have "drop n line = line ! n # drop (Suc n) line" by (simp add: Cons_nth_drop_Suc)
  with step show ?case by (simp add: upt_conv_Cons Suc_diff_Suc [symmetric])
qed

lemma token_between:
  assumes "i \<le> length line" "ph \<le> i"
  shows "strncpy_text (drop (skip_blanks line ph i) line) (i - skip_blanks line ph i)
    = token_text (take (i - ph) (drop ph line))"
proof -
  let ?t = "take (i - ph) (drop ph line)"
  have le: "length (takeWhile is_blank ?t) \<le> i - ph"
    using length_takeWhile_le [of is_blank ?t] by simp
  have "take (i - (ph + n)) (drop (ph + n) line) = drop n ?t" for n
    by (simp add: drop_take add.commute)
  moreover have "drop (length (takeWhile is_blank ?t)) ?t = dropWhile is_blank ?t"
    by (simp add: dropWhile_eq_drop)
  ultimately show ?thesis using le
    by (simp add: skip_blanks_def find_upt_blank [OF assms] strncpy_text_def token_text_def)
qed

lemma drop_split_delim:
  assumes "i < length line" "ph \<le> i"
  shows "drop ph line = take (i - ph) (drop ph line) @ line ! i # drop (Suc i) line"
proof -
  have "drop ph line = take (i - ph) (drop ph line) @ drop i line"
    using assms by (metis append_take_drop_id drop_drop le_add_diff_inverse2)
  with assms show ?thesis by (simp add: Cons_nth_drop_Suc)
qed

lemma expects_snoc: "expects (ts @ [t]) = other_delim (expects ts)"
  by (simp add: expects_def other_delim_def)

lemma expects_delim: "expects ts = CHR '':'' \<or> expects ts = CHR 0x0A"
  by (simp add: expects_def)

lemma parse_chars_state_of:
  assumes "ph \<le> i" "i \<le> length line" "expects ts \<notin> set (take (i - ph) (drop ph line))"
  shows "parse_chars line [i..<length line] (state_of ts ph) =
    Ret (state_of (ts @ map token_text (tokens (expects ts) (drop ph line)))
           (ph + consumed (expects ts) (drop ph line)))"
  using assms(2,1,3)
proof (induction i arbitrary: ts ph rule: inc_induct)
  case base
  then show ?case by (simp add: tokens_Nil consumed_Nil)
next
  case (step i)
  note split = drop_split_delim [OF step.hyps(2) step.prems(1)]
  show ?case
  proof (cases "line ! i = expects ts")
    case True
    let ?t = "take (i - ph) (drop ph line)"
    have "parse_char line i (state_of ts ph) = Ret (state_of (ts @ [token_text ?t]) (Suc i))"
      using parse_char_delim [OF True] token_between step.hyps step.prems(1) by simp
    moreover have "tokens (expects ts) (drop ph line)
        = ?t # tokens (other_delim (expects ts)) (drop (Suc i) line)"
      using tokens_Cons [OF step.prems(2), of "drop (Suc i) line"] split True by simp
    moreover have "consumed (expects ts) (drop ph line)
        = Suc (i - ph) + consumed (other_delim (expects ts)) (drop (Suc i) line)"
      using consumed_Cons [OF step.prems(2), of "drop (Suc i) line"] split True step.hyps step.prems(1)
      by simp
    ultimately show ?thesis
      using step.IH [of "Suc i" "ts @ [token_text ?t]"] step.hyps step.prems(1)
      by (simp add: upt_conv_Cons expects_snoc)
  next
    case False
    have "take (Suc i - ph) (drop ph line) = take (i - ph) (drop ph line) @ [line ! i]"
      using step.hyps step.prems(1) by (simp add: Suc_diff_le take_Suc_conv_app_nth)
    with False step show ?thesis
      by (simp add: upt_conv_Cons parse_char_other)
  qed
qed

lemma parse_chunk_state_of:
  "parse_chunk line (state_of ts ph) =
    Ret (state_of (ts @ map token_text (tokens (expects ts) line)) (consumed (expects ts) line))"
  using parse_chars_state_of [of 0 0 line ts] by (simp add: parse_chunk_def state_of_def)

lemma delim_after_expects:
  "delim_after (expects ts) (length us) = expects (ts @ us)"
  by (auto simp: delim_after_def expects_def other_delim_def)

section \<open>The chunked scanner reads the tokens of the file\<close>

lemma parse_loop_state_of:
  "parse_loop file pos (state_of ts ph) = Ret p \<Longrightarrow>
   \<exists>ph'. p = state_of (ts @ map token_text (tokens (expects ts) (drop pos file))) ph' \<and>
     (ts \<noteq> [] \<or> tokens (expects ts) (drop pos file) \<noteq> [])"
proof (induction "length file - pos" arbitrary: pos ts ph rule: less_induct)
  case less
  let ?line = "take line_size (drop pos file)" and ?e = "expects ts"
  let ?us = "map token_text (tokens ?e ?line)" and ?c = "consumed ?e ?line"
  have run: "parse_chunk ?line (state_of ts ph) = Ret (state_of (ts @ ?us) ?c)"
    by (rule parse_chunk_state_of)
  from less.prems run have pos: "0 < ?c"
    by (subst (asm) parse_loop.simps) (auto simp: Let_def split: if_splits)
  then have ne: "?us \<noteq> []" by (auto simp: consumed_def)
  have step: "parse_loop file pos (state_of ts ph) =
      (if length ?line < line_size then Ret (state_of (ts @ ?us) ?c)
       else parse_loop file (pos + ?c) (state_of (ts @ ?us) ?c))"
    using pos run by (subst parse_loop.simps) (simp add: Let_def)
  show ?case
  proof (cases "length ?line < line_size")
    case True
    then have "?line = drop pos file" by (simp add: min_def split: if_splits)
    with True less.prems step ne show ?thesis by auto
  next
    case False
    then have "pos < length file" by (auto simp: line_size_def)
    with pos have dec: "length file - (pos + ?c) < length file - pos" by simp
    have whole: "drop pos file = ?line @ drop line_size (drop pos file)"
      by (rule append_take_drop_id [symmetric])
    have "drop ?c ?line @ drop line_size (drop pos file) = drop ?c (?line @ drop line_size (drop pos file))"
      using consumed_le [of ?e ?line] by (simp only: drop_append diff_is_0_eq [THEN iffD2] drop_0)
    also have "\<dots> = drop ?c (drop pos file)" by (rule arg_cong [OF whole [symmetric]])
    also have "\<dots> = drop (pos + ?c) file" by (simp only: drop_drop add.commute)
    finally have rest: "drop ?c ?line @ drop line_size (drop pos file) = drop (pos + ?c) file" .
    have tok: "tokens ?e (drop pos file)
        = tokens ?e ?line @ tokens (expects (ts @ ?us)) (drop (pos + ?c) file)"
      using tokens_append [OF expects_delim, of ts ?line "drop line_size (drop pos file)"]
        delim_after_expects [of ts ?us] by (simp only: append_take_drop_id rest length_map)
    from less.prems step False have
      "parse_loop file (pos + ?c) (state_of (ts @ ?us) ?c) = Ret p" by simp
    from less.hyps [OF dec this] tok ne show ?thesis by auto
  qed
qed

section \<open>The instructions of a Procfile\<close>

text \<open>The (name, command) pair a cell holds.\<close>

definition instr_entry :: "fiveman_instruction \<Rightarrow> string option \<times> string option" where
  "instr_entry c = (instr_name c, instr_exec c)"

lemma length_entries: "length (entries ts) = Suc (length ts) div 2"
  by (induction ts rule: entries.induct) auto

lemma entries_nth:
  "i < Suc (length ts) div 2 \<Longrightarrow> entries ts ! i =
     (token_text (ts ! (2 * i)),
      if 2 * i + 1 < length ts then Some (token_text (ts ! (2 * i + 1))) else None)"
proof (induction ts arbitrary: i rule: entries.induct)
  case (3 n e ts)
  then show ?case by (cases i) auto
qed auto

lemma count_complete: "length (filter (\<lambda>en. snd en \<noteq> None) (entries ts)) = length ts div 2"
  by (induction ts rule: entries.induct) auto

lemma chain_cells_of:
  assumes "i < Suc (length ts) div 2"
  shows "chain (cells_of ts) (Some i) [i..<Suc (length ts) div 2]"
  using assms
proof (induction "Suc (length ts) div 2 - i" arbitrary: i)
  case 0
  then show ?case by simp
next
  case (Suc n)
  show ?case
  proof (cases "Suc i < Suc (length ts) div 2")
    case True
    then have "2 * i + 2 < length ts" by linarith
    with Suc.hyps(1) [of "Suc i"] Suc.hyps(2) Suc.prems True show ?thesis
      by (simp add: upt_conv_Cons load_cells_of cell_at_def)
  next
    case False
    then have "\<not> 2 * i + 2 < length ts" "[i..<Suc (length ts) div 2] = [i]"
      using Suc.prems by (auto simp: upt_conv_Cons)
    with Suc.prems show ?thesis by (simp add: load_cells_of cell_at_def)
  qed
qed

lemma parse_loop_init:
  assumes "parse_loop text 0 init_parser = Ret p"
  obtains ph where "p = state_of (map token_text (tokens CHR '':'' text)) ph"
    and "tokens CHR '':'' text \<noteq> []"
  using parse_loop_state_of [of "text" 0 "[]" 0 p] assms
  by (auto simp: init_parser_state_of expects_def)

lemma parse_procfile_Ret:
  assumes "parse_procfile (Some text) = Ret (head, found, h)"
  shows "head = Some 0 \<and> found = length (tokens CHR '':'' text) div 2 \<and> 0 < found
    \<and> h = cells_of (map token_text (tokens CHR '':'' text))"
proof -
  from assms obtain p where p: "parse_loop text 0 init_parser = Ret p"
    by (auto simp: parse_procfile_def split: res.splits)
  then obtain ph where "p = state_of (map token_text (tokens CHR '':'' text)) ph"
    and ne: "tokens CHR '':'' text \<noteq> []" by (rule parse_loop_init)
  with assms p show ?thesis
    by (auto simp: parse_procfile_def split: if_splits)
qed

text \<open>A Procfile below the buffer size is one chunk.\<close>

lemma parse_loop_small:
  assumes "length text < line_size"
  shows "parse_loop text 0 init_parser =
    (if tokens CHR '':'' text = [] then Fault (AssertFailed ''parse_head > 0'')
     else Ret (state_of (map token_text (tokens CHR '':'' text)) (consumed CHR '':'' text)))"
proof -
  have "take line_size text = text" using assms by simp
  moreover have "consumed CHR '':'' text = 0 \<longleftrightarrow> tokens CHR '':'' text = []"
    by (auto simp: consumed_def)
  ultimately show ?thesis using assms parse_chunk_state_of [of "text" "[]" 0]
    by (subst parse_loop.simps) (simp add: Let_def init_parser_state_of expects_def)
qed

lemma parse_procfile_small:
  assumes "length text < line_size"
  shows "parse_procfile (Some text) =
    (if tokens CHR '':'' text = [] then Fault (AssertFailed ''parse_head > 0'')
     else if length (tokens CHR '':'' text) = 1 then Fault (AssertFailed ''head == NULL'')
     else Ret (Some 0, length (tokens CHR '':'' text) div 2,
               cells_of (map token_text (tokens CHR '':'' text))))"
proof -
  have "length (tokens CHR '':'' text) div 2 > 0 \<longleftrightarrow>
      tokens CHR '':'' text \<noteq> [] \<and> length (tokens CHR '':'' text) \<noteq> 1"
    by (cases "tokens CHR '':'' text"; cases "tl (tokens CHR '':'' text)") auto
  then show ?thesis by (auto simp: parse_procfile_def parse_loop_small [OF assms])
qed

section \<open>Printing a Procfile\<close>

text \<open>The usual layout: \<open>name: command\<close>, one process per line.\<close>

fun print_entry :: "string \<times> string \<Rightarrow> string" where
  "print_entry (n, e) = n @ '': '' @ e @ [CHR 0x0A]"

definition print_procfile :: "(string \<times> string) list \<Rightarrow> string" where
  "print_procfile es = concat (map print_entry es)"

text \<open>A name or command that the scanner does not trim, with its delimiter not inside.\<close>

definition plain_token :: "char \<Rightarrow> string \<Rightarrow> bool" where
  "plain_token d t \<longleftrightarrow> t \<noteq> [] \<and> \<not> is_blank (hd t) \<and> d \<notin> set t \<and> CHR 0x00 \<notin> set t"

definition plain_entry :: "string \<times> string \<Rightarrow> bool" where
  "plain_entry en \<longleftrightarrow> plain_token CHR '':'' (fst en) \<and> plain_token CHR 0x0A (snd en)"

lemma token_text_plain: "plain_token d t \<Longrightarrow> token_text t = t"
  by (cases t) (auto simp: plain_token_def token_text_def cstr_id)

lemma token_text_blank_plain: "plain_token d t \<Longrightarrow> token_text (CHR '' '' # t) = t"
  by (cases t) (auto simp: plain_token_def token_text_def cstr_id is_blank_def)

lemma tokens_print_entry:
  assumes "plain_entry en"
  shows "tokens CHR '':'' (print_entry en @ s) = fst en # (CHR '' '' # snd en) # tokens CHR '':'' s"
proof -
  obtain n e where en: "en = (n, e)" by (cases en)
  have "tokens CHR '':'' (n @ CHR '':'' # (CHR '' '' # e @ CHR 0x0A # s))
      = n # tokens CHR 0x0A ((CHR '' '' # e) @ CHR 0x0A # s)"
    using assms by (subst tokens_Cons) (auto simp: en plain_entry_def plain_token_def other_delim_def)
  also have "tokens CHR 0x0A ((CHR '' '' # e) @ CHR 0x0A # s) = (CHR '' '' # e) # tokens CHR '':'' s"
    using assms by (subst tokens_Cons) (auto simp: en plain_entry_def plain_token_def other_delim_def)
  finally show ?thesis by (simp add: en)
qed

lemma tokens_print_procfile:
  "list_all plain_entry es \<Longrightarrow> tokens CHR '':'' (print_procfile es @ s) =
     concat (map (\<lambda>en. [fst en, CHR '' '' # snd en]) es) @ tokens CHR '':'' s"
proof (induction es)
  case (Cons en es)
  then show ?case using tokens_print_entry [of en "print_procfile es @ s"]
    by (simp add: print_procfile_def)
qed (simp add: print_procfile_def)

lemma entries_pairs:
  "list_all plain_entry es \<Longrightarrow>
   entries (concat (map (\<lambda>en. [fst en, CHR '' '' # snd en]) es) @ ts) =
     map (\<lambda>en. (fst en, Some (snd en))) es @ entries ts"
  by (induction es)
    (auto simp: plain_entry_def token_text_plain token_text_blank_plain)

text \<open>What the store holds after a successful parse.\<close>

definition heap_entries :: "instr_heap \<Rightarrow> (string option \<times> string option) option list" where
  "heap_entries h = map (map_option instr_entry) h"

lemma heap_entries_cells_of:
  "heap_entries (cells_of (map token_text ts)) = map (\<lambda>(n, e). Some (Some n, e)) (entries ts)"
proof (rule nth_equalityI)
  fix i assume "i < length (heap_entries (cells_of (map token_text ts)))"
  then have i: "i < Suc (length ts) div 2" by (simp add: heap_entries_def)
  then have "2 * i < length ts" by linarith
  with i show "heap_entries (cells_of (map token_text ts)) ! i
      = map (\<lambda>(n, e). Some (Some n, e)) (entries ts) ! i"
    by (simp add: heap_entries_def length_entries entries_nth cell_at_def instr_entry_def)
qed (simp add: heap_entries_def length_entries)

lemma parse_procfile_chain:
  assumes "parse_procfile (Some text) = Ret (head, found, h)"
  shows "chain h head [0..<length h] \<and> h \<noteq> []"
proof -
  let ?ts = "map token_text (tokens CHR '':'' text)"
  from parse_procfile_Ret [OF assms] have h: "h = cells_of ?ts" "head = Some 0" "0 < Suc (length ?ts) div 2"
    by auto
  then have len: "length h = Suc (length ?ts) div 2" by simp
  have "chain h head [0..<length h]"
    unfolding len unfolding h(1,2) by (rule chain_cells_of [OF h(3)])
  moreover have "h \<noteq> []" using len h(3) by (cases h) simp_all
  ultimately show ?thesis ..
qed

lemma length_tokens_printed:
  "list_all plain_entry es \<Longrightarrow> length (tokens CHR '':'' (print_procfile es @ s))
     = 2 * length es + length (tokens CHR '':'' s)"
  by (simp add: tokens_print_procfile length_concat comp_def sum_list_triv)

lemma unterminated_parse:
  assumes "list_all plain_entry es" "es \<noteq> []" "plain_token CHR '':'' n" "CHR 0x0A \<notin> set e"
    "length (print_procfile es @ n @ '':'' @ e) < line_size"
  shows "\<exists>h. parse_procfile (Some (print_procfile es @ n @ '':'' @ e)) = Ret (Some 0, length es, h)
    \<and> length h = Suc (length es)
    \<and> heap_entries h = map (\<lambda>(n, e). Some (Some n, Some e)) es @ [Some (Some n, None)]"
proof -
  let ?f = "print_procfile es @ n @ '':'' @ e"
  have nt: "tokens CHR '':'' (n @ '':'' @ e) = [n]"
    using assms(3,4) tokens_Cons [of "CHR '':''" n e]
    by (simp add: plain_token_def tokens_Nil other_delim_def)
  have len: "length (tokens CHR '':'' ?f) = Suc (2 * length es)"
    using length_tokens_printed [OF assms(1), of "n @ '':'' @ e"] nt by simp
  have en: "entries (tokens CHR '':'' ?f) = map (\<lambda>en. (fst en, Some (snd en))) es @ [(n, None)]"
    unfolding tokens_print_procfile [OF assms(1)] nt entries_pairs [OF assms(1)]
    by (simp add: token_text_plain [OF assms(3)])
  let ?h = "cells_of (map token_text (tokens CHR '':'' ?f))"
  have "tokens CHR '':'' ?f \<noteq> []" using len by force
  moreover have "length (tokens CHR '':'' ?f) \<noteq> 1" "length (tokens CHR '':'' ?f) div 2 = length es"
    using assms(2) len by simp_all
  ultimately have run: "parse_procfile (Some ?f) = Ret (Some 0, length es, ?h)"
    unfolding parse_procfile_small [OF assms(5)] by (simp only: if_False)
  have "length ?h = Suc (length es)" using len by simp
  moreover have "heap_entries ?h = map (\<lambda>(n, e). Some (Some n, Some e)) es @ [Some (Some n, None)]"
    unfolding heap_entries_cells_of en by (simp add: comp_def case_prod_beta')
  ultimately show ?thesis using run by auto
qed

section \<open>Properties\<close>

text \<open>C1: Refinement. Whenever \<open>parse_procfile\<close> succeeds, and however its 8192-byte reads cut the
  file, the list it returns is the chain of all cells in file order, its names and commands are
  those of the whole text read in one piece, and the count it returns is the number of processes
  whose line is complete, at least one.\<close>

theorem procfile_refines:
  assumes "parse_procfile (Some text) = Ret (head, found, h)"
  shows "chain h head [0..<length h]
    \<and> heap_entries h = map (\<lambda>(n, e). Some (Some n, e)) (entries (tokens CHR '':'' text))
    \<and> found = length (filter (\<lambda>en. snd en \<noteq> None) (entries (tokens CHR '':'' text)))
    \<and> 0 < found"
  using parse_procfile_chain [OF assms] parse_procfile_Ret [OF assms]
  by (simp add: heap_entries_cells_of count_complete [simplified])

theorem procfile_refines_witness:
  "\<exists>head found h. parse_procfile (Some ''web: x
'') = Ret (head, found, h) \<and> heap_entries h = [Some (Some ''web'', Some ''x'')] \<and> found = 1"
proof -
  have "\<exists>r. parse_procfile (Some ''web: x
'') = Ret r" by (subst parse_procfile_small) (simp_all add: line_size_def tokens.simps other_delim_def)
  then obtain head found h where r: "parse_procfile (Some ''web: x
'') = Ret (head, found, h)" by (metis prod_cases3)
  have "entries (tokens CHR '':'' ''web: x
'') = [(''web'', Some ''x'')]"
    by (simp add: tokens.simps other_delim_def token_text_def is_blank_def cstr_def)
  with procfile_refines [OF r] r show ?thesis by (intro exI [of _ head] exI [of _ found] exI [of _ h]) simp
qed

text \<open>C16: Round trip. A Procfile below the buffer size that lists its processes one per line, each
  line ended by a newline, is read back exactly: same names, same commands, same order, and the
  count is their number.\<close>

theorem procfile_roundtrip:
  assumes "list_all plain_entry es" "es \<noteq> []" "length (print_procfile es) < line_size"
  shows "\<exists>h. parse_procfile (Some (print_procfile es)) = Ret (Some 0, length es, h)
    \<and> heap_entries h = map (\<lambda>(n, e). Some (Some n, Some e)) es"
proof -
  have t: "tokens CHR '':'' (print_procfile es) = concat (map (\<lambda>en. [fst en, CHR '' '' # snd en]) es)"
    using tokens_print_procfile [OF assms(1), of "[]"] by (simp add: tokens.simps)
  have "length (tokens CHR '':'' (print_procfile es)) = 2 * length es"
    using length_tokens_printed [OF assms(1), of "[]"] by (simp add: tokens.simps)
  moreover have "entries (tokens CHR '':'' (print_procfile es)) = map (\<lambda>en. (fst en, Some (snd en))) es"
    using entries_pairs [OF assms(1), of "[]"] t by simp
  ultimately show ?thesis using parse_procfile_small [OF assms(3)] assms(2)
    by (auto simp: heap_entries_cells_of comp_def case_prod_beta' split: if_splits)
qed

theorem procfile_roundtrip_witness:
  "\<exists>h. parse_procfile (Some (print_procfile [(''a'', ''x y''), (''b'', ''z:1'')])) = Ret (Some 0, 2, h)
    \<and> heap_entries h = [Some (Some ''a'', Some ''x y''), Some (Some ''b'', Some ''z:1'')]"
  using procfile_roundtrip [of "[(''a'', ''x y''), (''b'', ''z:1'')]"]
  by (simp add: plain_entry_def plain_token_def is_blank_def print_procfile_def line_size_def
      numeral_2_eq_2)

text \<open>A last line without a newline is counted wrongly. After complete lines, a last line
  \<open>name: command\<close> that the file ends without a newline is linked into the list, without a command,
  but is not counted: the list has one cell more than the count that \<open>main\<close> sizes its arrays by.\<close>

theorem procfile_unterminated_line:
  assumes "list_all plain_entry es" "es \<noteq> []" "plain_token CHR '':'' n" "CHR 0x0A \<notin> set e"
    "length (print_procfile es @ n @ '':'' @ e) < line_size"
  shows "\<exists>h. parse_procfile (Some (print_procfile es @ n @ '':'' @ e)) = Ret (Some 0, length es, h)
    \<and> chain h (Some 0) [0..<Suc (length es)]
    \<and> heap_entries h = map (\<lambda>(n, e). Some (Some n, Some e)) es @ [Some (Some n, None)]"
  using unterminated_parse [OF assms] parse_procfile_chain by fastforce

theorem procfile_unterminated_line_witness:
  "\<exists>h. parse_procfile (Some (print_procfile [(''a'', ''x'')] @ ''b'' @ '':'' @ '' y'')) = Ret (Some 0, 1, h)
    \<and> heap_entries h = [Some (Some ''a'', Some ''x''), Some (Some ''b'', None)]"
  using procfile_unterminated_line [of "[(''a'', ''x'')]" "''b''" "'' y''"]
  by (auto simp: plain_entry_def plain_token_def is_blank_def print_procfile_def line_size_def)

text \<open>Errors of small files. Below the buffer size the outcome depends only on the number of
  tokens: none aborts on \<open>assert(parse_head > 0)\<close> (the empty file does), a single name without a
  complete line aborts on \<open>assert(head == NULL)\<close>, and everything else succeeds.\<close>

theorem procfile_small_outcome:
  assumes "length text < line_size"
  shows "parse_procfile (Some text) =
    (case tokens CHR '':'' text of
       [] \<Rightarrow> Fault (AssertFailed ''parse_head > 0'')
     | [_] \<Rightarrow> Fault (AssertFailed ''head == NULL'')
     | ts \<Rightarrow> Ret (Some 0, length ts div 2, cells_of (map token_text ts)))"
  using parse_procfile_small [OF assms] by (auto split: list.split)

theorem procfile_small_outcome_witness:
  "parse_procfile (Some []) = Fault (AssertFailed ''parse_head > 0'')"
  using procfile_small_outcome [of "[]"] by (simp add: line_size_def tokens.simps)

text \<open>C28: A Procfile of exactly 8192 bytes never parses. The first read does not meet the end of the
  file, so the rest is read once more, has no delimiter left, and the assertion aborts.\<close>

theorem procfile_exact_buffer_aborts:
  assumes "length text = line_size"
  shows "parse_procfile (Some text) = Fault (AssertFailed ''parse_head > 0'')"
proof -
  let ?ts = "map token_text (tokens CHR '':'' text)" and ?c = "consumed CHR '':'' text"
  have rest: "tokens (expects ?ts) (drop ?c text) = []"
    using tokens_append [of "CHR '':''" "text" "[]"] delim_after_expects [of "[]" ?ts]
    by (simp add: expects_def)
  have "parse_loop text 0 init_parser =
      (if ?c = 0 then Fault (AssertFailed ''parse_head > 0'') else parse_loop text ?c (state_of ?ts ?c))"
    using assms parse_chunk_state_of [of "text" "[]" 0]
    by (subst parse_loop.simps) (simp add: Let_def init_parser_state_of expects_def)
  moreover have "?c \<noteq> 0 \<Longrightarrow> parse_loop text ?c (state_of ?ts ?c) = Fault (AssertFailed ''parse_head > 0'')"
    using assms rest parse_chunk_state_of [of "drop ?c text" ?ts ?c]
    by (subst parse_loop.simps) (simp add: Let_def consumed_def)
  ultimately show ?thesis by (simp add: parse_procfile_def)
qed

theorem procfile_exact_buffer_aborts_witness:
  "parse_procfile (Some (replicate 8192 CHR ''a'')) = Fault (AssertFailed ''parse_head > 0'')"
  by (rule procfile_exact_buffer_aborts) (simp add: line_size_def)

text \<open>C27: The instruction list is freed completely. After any successful parse,
  \<open>fiveman_instruction_deallocate\<close> frees every cell exactly once, touches no freed cell and ends.\<close>

theorem procfile_deallocate:
  assumes "parse_procfile (Some text) = Ret (head, found, h)"
  shows "fiveman_instruction_deallocate h head = Ret (replicate (length h) None)"
proof -
  have "map (\<lambda>a. if a \<in> set [0..<length h] then None else h ! a) [0..<length h] = replicate (length h) None"
    by (rule nth_equalityI) simp_all
  then show ?thesis
    using deallocate_chain [of h head "[0..<length h]"] parse_procfile_chain [OF assms] by simp
qed

theorem procfile_deallocate_witness:
  "\<exists>head h. parse_procfile (Some ''a:b
'') = Ret (head, 1, h) \<and> fiveman_instruction_deallocate h head = Ret [None]"
proof -
  have "parse_procfile (Some ''a:b
'') = Ret (Some 0, 1, cells_of [''a'', ''b''])"
    by (subst parse_procfile_small)
      (simp_all add: line_size_def tokens.simps other_delim_def token_text_def is_blank_def cstr_def)
  with procfile_deallocate [OF this] show ?thesis by simp
qed

end
