(* ===== verification/Fiveman_State_Table.thy ===== *)
theory Fiveman_State_Table
  imports Fiveman_Process_State Fiveman_Procfile
begin

text \<open>
  \<open>src/fiveman_process_state_table.c\<close>: the operations on the whole table. The list linked by \<open>next\<close>
  is a \<open>process_table\<close>; every function walks it from the head and applies the function of
  \<open>fiveman_process_state.c\<close> to each entry. The locale \<open>table_operation\<close> says once what such a walk
  inherits from the operation on an entry.
\<close>

section \<open>Operations\<close>

text \<open>
  \<open>fiveman_process_state_table_allocate\<close> follows the instruction list. A list without an end would
  make it run for ever; \<open>allocate_from\<close> has one round for every cell of the store and one more,
  which is enough for every list that ends.
\<close>

fun allocate_from :: "nat \<Rightarrow> instr_heap \<Rightarrow> nat option \<Rightarrow> int \<Rightarrow> process_table res" where
  "allocate_from fuel h None port = Ret []"
| "allocate_from 0 h (Some a) port = Fault (NeverReturns ''table_allocate'')"
| "allocate_from (Suc fuel) h (Some a) port =
     (case load_instr h a of
        Fault e \<Rightarrow> Fault e
      | Ret instr \<Rightarrow>
          (case allocate_from fuel h (instr_next instr) (int32 (port + 1)) of
             Fault e \<Rightarrow> Fault e
           | Ret rest \<Rightarrow> Ret (fiveman_process_state_allocate instr port # rest)))"

definition fiveman_process_state_table_allocate ::
  "instr_heap \<Rightarrow> nat option \<Rightarrow> int \<Rightarrow> process_table res" where
  "fiveman_process_state_table_allocate h instr starting_port =
     allocate_from (Suc (length h)) h instr starting_port"

text \<open>The output paths of every entry are given up; the entries themselves stay allocated, so the global that
  points to them still points to a table.\<close>

definition fiveman_process_state_table_deallocate :: "kernel \<Rightarrow> process_table \<Rightarrow> process_table eff" where
  "fiveman_process_state_table_deallocate k table = fiveman_process_state_deallocate k table"

definition fiveman_process_state_table_mark_as_application_table :: "unit eff" where
  "fiveman_process_state_table_mark_as_application_table =
     io_modify (\<lambda>w. w\<lparr>application_state_table := Live_table\<rparr>)"

definition fiveman_process_state_table_initialize :: "kernel \<Rightarrow> process_table \<Rightarrow> process_table eff" where
  "fiveman_process_state_table_initialize k = walk (fiveman_process_state_initialize k)"

definition fiveman_process_state_table_converge :: "kernel \<Rightarrow> process_table \<Rightarrow> string \<Rightarrow> process_table eff" where
  "fiveman_process_state_table_converge k table directory =
     walk (\<lambda>ps. fiveman_process_state_converge k ps directory) table"

definition fiveman_process_state_table_change_intent :: "process_table \<Rightarrow> FIVEMAN_INTENT \<Rightarrow> process_table" where
  "fiveman_process_state_table_change_intent table intent =
     map (\<lambda>ps. fiveman_process_state_change_intent ps intent) table"

definition fiveman_process_state_table_reflect_desired_intent :: "process_table \<Rightarrow> process_table" where
  "fiveman_process_state_table_reflect_desired_intent table =
     map fiveman_process_state_reflect_desired_intent table"

definition fiveman_process_state_table_desires_intent :: "process_table \<Rightarrow> FIVEMAN_INTENT \<Rightarrow> process_table" where
  "fiveman_process_state_table_desires_intent table intent =
     map (\<lambda>ps. fiveman_process_state_desires_intent ps intent) table"

fun fiveman_process_state_table_signal :: "kernel \<Rightarrow> process_table \<Rightarrow> int \<Rightarrow> unit eff" where
  "fiveman_process_state_table_signal k [] signal = io_return ()"
| "fiveman_process_state_table_signal k (ps # table) signal =
     io_then (fiveman_process_state_signal k ps signal) (fiveman_process_state_table_signal k table signal)"

fun num_alive_from :: "kernel \<Rightarrow> process_table \<Rightarrow> nat \<Rightarrow> nat eff" where
  "num_alive_from k [] n = io_return n"
| "num_alive_from k (ps # table) n =
     io_bind (fiveman_process_state_is_alive k ps) (\<lambda>alive.
     num_alive_from k table (if alive then Suc n else n))"

definition fiveman_process_state_table_num_alive :: "kernel \<Rightarrow> process_table \<Rightarrow> nat eff" where
  "fiveman_process_state_table_num_alive k table = num_alive_from k table 0"

definition fiveman_process_state_table_reap_zombie_processes :: "kernel \<Rightarrow> process_table \<Rightarrow> process_table eff" where
  "fiveman_process_state_table_reap_zombie_processes k = walk (fiveman_process_state_reap_zombie_processes k)"

section \<open>What a walk inherits\<close>

locale table_operation =
  fixes f :: "fiveman_process_state \<Rightarrow> fiveman_process_state eff"
    and R :: "fiveman_process_state \<Rightarrow> fiveman_process_state \<Rightarrow> bool"
  assumes step: "f ps w = (Ret ps', w') \<Longrightarrow> R ps ps'"
begin

lemma walk_pointwise: "walk f table w = (Ret table', w') \<Longrightarrow> list_all2 R table table'"
proof (induction "table" arbitrary: table' w)
  case (Cons ps "table")
  then show ?case by (auto elim!: io_bind_Ret simp: io_run(1) dest: step)
qed (simp add: io_run)

lemma walk_invariant:
  assumes "walk f table w = (Ret table', w')" "\<And>ps ps'. R ps ps' \<Longrightarrow> I ps \<Longrightarrow> I ps'" "list_all I table"
  shows "list_all I table'"
  using walk_pointwise [OF assms(1)] assms(2,3) by (induction rule: list_all2_induct) auto

end

text \<open>What each operation keeps of an entry.\<close>

definition same_process :: "fiveman_process_state \<Rightarrow> fiveman_process_state \<Rightarrow> bool" where
  "same_process ps ps' \<longleftrightarrow> same_identity ps ps' \<and> (attached ps \<longrightarrow> attached ps')"

lemma same_process_refl [simp]: "same_process ps ps"
  by (simp add: same_process_def)

lemma converge_same: "fiveman_process_state_converge k ps d w = (Ret ps', w') \<Longrightarrow> same_process ps ps'"
  by (drule converge_run) (auto simp: same_process_def)

interpretation converging: table_operation "\<lambda>ps. fiveman_process_state_converge k ps d" same_process for k d
  by unfold_locales (rule converge_same)

interpretation reaping: table_operation "fiveman_process_state_reap_zombie_processes k" "\<lambda>ps ps'. ps' = ps" for k
  by unfold_locales (auto simp: fiveman_process_state_reap_zombie_processes_def io_run split: prod.splits res.splits)

text \<open>An initialised entry has its paths; a deallocated one has none and is detached.\<close>

definition initialized :: "fiveman_process_state \<Rightarrow> fiveman_process_state \<Rightarrow> bool" where
  "initialized ps ps' \<longleftrightarrow> pi_intent (ps_intent ps') = INTENT_START \<and> ps_stdout ps' \<noteq> None \<and> ps_stderr ps' \<noteq> None
     \<and> ps_instruction ps' = ps_instruction ps \<and> ps_desired_port ps' = ps_desired_port ps \<and> ps_pid ps' = ps_pid ps
     \<and> ps_desired_intent ps' = ps_desired_intent ps \<and> ps_sample_ctxt ps' = ps_sample_ctxt ps"

interpretation initializing: table_operation "fiveman_process_state_initialize k" initialized for k
  by unfold_locales
    (auto simp: fiveman_process_state_initialize_def initialized_def fiveman_process_state_clear_sample_def io_run(1)
      elim!: io_elims)

interpretation deallocating: table_operation "deallocate_one k"
  "\<lambda>ps ps'. ps' = ps\<lparr>ps_sample_ctxt := None, ps_stdout := None, ps_stderr := None\<rparr>" for k
proof
  fix ps w ps' w' assume run: "deallocate_one k ps w = (Ret ps', w')"
  obtain v where "fiveman_teardown_sampling k ps w = (Ret (ps\<lparr>ps_sample_ctxt := None\<rparr>), v)"
    using teardown_sampling_run by blast
  with run show "ps' = ps\<lparr>ps_sample_ctxt := None, ps_stdout := None, ps_stderr := None\<rparr>"
    by (auto simp: deallocate_one_def io_simps)
qed

section \<open>Lemmas\<close>

lemma allocate_from_chain:
  "chain h p as \<Longrightarrow> length as < fuel \<Longrightarrow> - (2 ^ 31) \<le> port \<Longrightarrow> port + int (length as) < 2 ^ 31 \<Longrightarrow>
   allocate_from fuel h p port =
     Ret (map (\<lambda>i. fiveman_process_state_allocate (the (h ! (as ! i))) (port + int i)) [0..<length as])"
proof (induction as arbitrary: p port fuel)
  case (Cons a as)
  then obtain c where p: "p = Some a" and c: "load_instr h a = Ret c" and ch: "chain h (instr_next c) as"
    by (auto split: res.splits)
  obtain n where n: "fuel = Suc n" "length as < n" using Cons.prems(2) by (cases fuel) auto
  have port: "int32 (port + 1) = port + 1" using Cons.prems(3,4) by (intro int32_id) auto
  have "allocate_from n h (instr_next c) (port + 1) = Ret (map (\<lambda>i.
      fiveman_process_state_allocate (the (h ! (as ! i))) (port + 1 + int i)) [0..<length as])"
    using Cons.prems n(2) by (intro Cons.IH [OF ch]) auto
  moreover have "port + 1 + int i = port + int (Suc i)" for i by simp
  ultimately have "allocate_from n h (instr_next c) (int32 (port + 1)) = Ret (map (\<lambda>i.
      fiveman_process_state_allocate (the (h ! (as ! i))) (port + int (Suc i))) [0..<length as])"
    by (simp only: port)
  moreover have "the (h ! a) = c" using c by (simp add: load_instr_Ret)
  moreover have "[0..<length (a # as)] = 0 # map Suc [0..<length as]" by (simp add: upt_conv_Cons map_Suc_upt del: upt_Suc)
  ultimately show ?case by (simp add: p c n(1) comp_def del: of_nat_Suc)
qed simp

lemma table_signal_run:
  "fiveman_process_state_table_signal k table sig w = (Ret (), w\<lparr>trace := trace w
     @ map (\<lambda>ps. Killpg (ps_pid ps) sig) (filter (\<lambda>ps. 0 < ps_pid ps) table)\<rparr>)"
  by (induction "table" arbitrary: w) (auto simp: io_simps)

lemma num_alive_from_run:
  "\<exists>es. num_alive_from k table n w = (Ret (n + length (filter (\<lambda>e. case e of Kill p s b \<Rightarrow> b | _ \<Rightarrow> False) es)),
       w\<lparr>trace := trace w @ es\<rparr>)
     \<and> map (\<lambda>e. case e of Kill p s b \<Rightarrow> (p, s) | _ \<Rightarrow> (0, 1)) es
         = map (\<lambda>ps. (ps_pid ps, 0)) (filter (\<lambda>ps. 0 < ps_pid ps) table)"
proof (induction "table" arbitrary: n w)
  case Nil
  then show ?case by (intro exI [of _ "[]"]) (simp add: io_run)
next
  case (Cons ps "table")
  show ?case
  proof (cases "0 < ps_pid ps")
    case True
    define b where "b = k_kill k (trace w) (ps_pid ps) 0"
    obtain es where
      "num_alive_from k table (if b then Suc n else n) (w\<lparr>trace := trace w @ [Kill (ps_pid ps) 0 b]\<rparr>)
        = (Ret ((if b then Suc n else n) + length (filter (\<lambda>e. case e of Kill p s b \<Rightarrow> b | _ \<Rightarrow> False) es)),
           w\<lparr>trace := trace w @ [Kill (ps_pid ps) 0 b] @ es\<rparr>)"
      "map (\<lambda>e. case e of Kill p s b \<Rightarrow> (p, s) | _ \<Rightarrow> (0, 1)) es
         = map (\<lambda>ps. (ps_pid ps, 0)) (filter (\<lambda>ps. 0 < ps_pid ps) table)"
      using Cons.IH [of "if b then Suc n else n" "w\<lparr>trace := trace w @ [Kill (ps_pid ps) 0 b]\<rparr>"] by auto
    with True show ?thesis
      by (intro exI [of _ "Kill (ps_pid ps) 0 b # es"]) (simp add: io_simps b_def [symmetric])
  next
    case False
    with Cons.IH [of n w] show ?thesis by (simp add: io_simps)
  qed
qed

text \<open>A round of probes: one \<open>kill(pid, 0)\<close> for each entry that has a pid, in the order of the table.\<close>

definition probed :: "process_table \<Rightarrow> event list \<Rightarrow> bool" where
  "probed table es \<longleftrightarrow> list_all2 (\<lambda>ps e. \<exists>b. e = Kill (ps_pid ps) 0 b) (filter (\<lambda>ps. 0 < ps_pid ps) table) es"

lemma num_alive_from_probes:
  "\<exists>es m. num_alive_from k table n w = (Ret (n + m), w\<lparr>trace := trace w @ es\<rparr>) \<and> probed table es
     \<and> (0 < m \<longleftrightarrow> found_alive es)"
proof (induction "table" arbitrary: n w)
  case Nil
  then show ?case by (intro exI [of _ "[]"] exI [of _ 0]) (simp add: io_run probed_def)
next
  case (Cons ps "table")
  show ?case
  proof (cases "0 < ps_pid ps")
    case True
    define b where "b = k_kill k (trace w) (ps_pid ps) 0"
    obtain es m where
      "num_alive_from k table (if b then Suc n else n) (w\<lparr>trace := trace w @ [Kill (ps_pid ps) 0 b]\<rparr>)
        = (Ret ((if b then Suc n else n) + m), w\<lparr>trace := trace w @ [Kill (ps_pid ps) 0 b] @ es\<rparr>)"
      "probed table es" "0 < m \<longleftrightarrow> found_alive es"
      using Cons.IH [of "if b then Suc n else n" "w\<lparr>trace := trace w @ [Kill (ps_pid ps) 0 b]\<rparr>"] by auto
    with True show ?thesis
      by (intro exI [of _ "Kill (ps_pid ps) 0 b # es"] exI [of _ "if b then Suc m else m"])
        (auto simp: io_simps b_def [symmetric] probed_def)
  next
    case False
    with Cons.IH [of n w] show ?thesis by (simp add: io_simps probed_def)
  qed
qed

lemma num_alive_probes:
  "\<exists>es m. fiveman_process_state_table_num_alive k table w = (Ret m, w\<lparr>trace := trace w @ es\<rparr>) \<and> probed table es
     \<and> (0 < m \<longleftrightarrow> found_alive es)"
  using num_alive_from_probes [of k "table" 0 w] by (simp add: fiveman_process_state_table_num_alive_def)

lemma deallocate_unlinks:
  "\<exists>table' w'. fiveman_process_state_deallocate k table w = (Ret table', w')
     \<and> (\<exists>es. trace w' = trace w @ es \<and> filter (\<lambda>e. \<not> sampling_event e) es
          = concat (map (\<lambda>ps. [Unlink (ps_stdout ps), Unlink (ps_stderr ps)]) table))"
proof (induction "table" arbitrary: w)
  case Nil
  then show ?case by (simp add: fiveman_process_state_deallocate_def io_run)
next
  case (Cons ps "table")
  obtain v where v: "fiveman_teardown_sampling k ps w = (Ret (ps\<lparr>ps_sample_ctxt := None\<rparr>), v)"
    using teardown_sampling_run by blast
  then obtain es1 where es1: "trace v = trace w @ es1" "list_all sampling_event es1"
    using emitsD [OF mac.teardown_calls] by blast
  let ?v = "v\<lparr>trace := trace v @ [Unlink (ps_stdout ps), Unlink (ps_stderr ps)]\<rparr>"
  have one: "deallocate_one k ps w
      = (Ret (ps\<lparr>ps_sample_ctxt := None, ps_stdout := None, ps_stderr := None\<rparr>), ?v)"
    by (simp add: deallocate_one_def io_simps v)
  obtain table' w' es where "fiveman_process_state_deallocate k table ?v = (Ret table', w')"
    "trace w' = trace ?v @ es" "filter (\<lambda>e. \<not> sampling_event e) es
       = concat (map (\<lambda>ps. [Unlink (ps_stdout ps), Unlink (ps_stderr ps)]) table)"
    using Cons.IH by blast
  moreover have "filter (\<lambda>e. \<not> sampling_event e) es1 = []"
    using es1(2) by (simp add: filter_empty_conv list_all_iff)
  ultimately show ?case using es1
    by (auto simp: fiveman_process_state_deallocate_def io_run one sampling_event_def
        intro!: exI [of _ "es1 @ [Unlink (ps_stdout ps), Unlink (ps_stderr ps)] @ es"])
qed

lemma table_signals:
  "emits (\<lambda>e. own_signal 0 e \<or> (\<exists>ps \<in> set table. own_signal (ps_pid ps) e))
     (fiveman_process_state_table_converge k table d)"
  unfolding fiveman_process_state_table_converge_def
  by (rule emits_walk) (auto intro: emits_mono [OF converge_own])

lemma length_filter_all: "length (filter P xs) = length xs \<longleftrightarrow> list_all P xs"
proof (induction xs)
  case (Cons x xs)
  moreover have "length (filter P xs) < Suc (length xs)" by (simp add: less_Suc_eq_le)
  ultimately show ?case by (cases "P x") simp_all
qed simp

lemma parsed_cells:
  assumes "parse_procfile (Some text) = Ret (head, found, h)"
  shows "found = length (filter (\<lambda>c. instr_exec (the c) \<noteq> None) h)"
proof -
  let ?es = "entries (tokens CHR '':'' text)"
  have hs: "map (map_option instr_entry) h = map (\<lambda>(n, e). Some (Some n, e)) ?es"
    using parse_procfile_Ret [OF assms] heap_entries_cells_of by (simp add: heap_entries_def)
  have found: "found = length (filter (\<lambda>en. snd en \<noteq> None) ?es)"
    using parse_procfile_Ret [OF assms] by (simp add: count_complete [simplified])
  have "length (filter (\<lambda>c. instr_exec (the c) \<noteq> None) cs) = length (filter (\<lambda>en. snd en \<noteq> None) es)"
    if "map (map_option instr_entry) cs = map (\<lambda>(n, e). Some (Some n, e)) es"
    for cs :: instr_heap and es :: "(string \<times> string option) list"
    using that
  proof (induction es arbitrary: cs)
    case (Cons e es)
    then obtain c cs' where "cs = c # cs'" by (cases cs) auto
    with Cons show ?case by (auto simp: instr_entry_def split: prod.splits)
  qed simp
  from this [OF hs] found show ?thesis by simp
qed

section \<open>Properties\<close>

text \<open>C17: The table has one entry for every instruction of the Procfile, in its order, on consecutive
  ports. For every parsed file and every starting port that leaves room, allocation succeeds; entry
  \<open>i\<close> holds instruction \<open>i\<close> and the port \<open>start + i\<close>, so ports are distinct, no entry has a pid yet and
  the sampling invariant holds; and the count the parser returned is never more than the entries, with
  equality exactly when every instruction has its command.\<close>

theorem table_of_procfile:
  assumes "parse_procfile (Some text) = Ret (head, found, h)" "0 \<le> port" "port + int (length h) < 2 ^ 31"
  shows "\<exists>table. fiveman_process_state_table_allocate h head port = Ret table
    \<and> length table = length h
    \<and> (\<forall>i < length h. ps_instruction (table ! i) = the (h ! i) \<and> ps_desired_port (table ! i) = port + int i
        \<and> ps_pid (table ! i) = 0 \<and> pi_intent (ps_intent (table ! i)) = INTENT_NONE
        \<and> pi_intent (ps_desired_intent (table ! i)) = INTENT_START)
    \<and> distinct (map ps_desired_port table) \<and> list_all attached table
    \<and> found \<le> length table
    \<and> (found = length table \<longleftrightarrow> list_all (\<lambda>ps. instr_exec (ps_instruction ps) \<noteq> None) table)"
proof -
  define t where "t = map (\<lambda>i. fiveman_process_state_allocate (the (h ! i)) (port + int i)) [0..<length h]"
  have ch: "chain h head [0..<length h]" using parse_procfile_chain [OF assms(1)] by blast
  have nth: "t ! i = fiveman_process_state_allocate (the (h ! i)) (port + int i)" if "i < length h" for i
    using that by (simp add: t_def)
  have len: "length t = length h" by (simp add: t_def)
  have "allocate_from (Suc (length h)) h head port =
     Ret (map (\<lambda>i. fiveman_process_state_allocate (the (h ! ([0..<length h] ! i))) (port + int i)) [0..<length [0..<length h]])"
    using assms(2,3) by (intro allocate_from_chain [OF ch]) auto
  also have "map (\<lambda>i. fiveman_process_state_allocate (the (h ! ([0..<length h] ! i))) (port + int i)) [0..<length [0..<length h]] = t"
    unfolding t_def by (rule map_cong) auto
  finally have run: "fiveman_process_state_table_allocate h head port = Ret t"
    unfolding fiveman_process_state_table_allocate_def .
  have fields: "ps_instruction (t ! i) = the (h ! i) \<and> ps_desired_port (t ! i) = port + int i
      \<and> ps_pid (t ! i) = 0 \<and> pi_intent (ps_intent (t ! i)) = INTENT_NONE
      \<and> pi_intent (ps_desired_intent (t ! i)) = INTENT_START" and att: "attached (t ! i)" if "i < length h" for i
    using that by (simp_all add: nth fiveman_process_state_allocate_def attached_def zero_intent_def)
  have found: "found = length (filter (\<lambda>c. instr_exec (the c) \<noteq> None) h)" by (rule parsed_cells [OF assms(1)])
  then have le: "found \<le> length t" unfolding len by (simp only: length_filter_le)
  have "found = length t \<longleftrightarrow> list_all (\<lambda>c. instr_exec (the c) \<noteq> None) h"
    unfolding found len by (rule length_filter_all)
  also have "\<dots> \<longleftrightarrow> list_all (\<lambda>ps. instr_exec (ps_instruction ps) \<noteq> None) t"
    unfolding list_all_length len using fields by (metis (no_types, lifting))
  finally have eq: "found = length t \<longleftrightarrow> list_all (\<lambda>ps. instr_exec (ps_instruction ps) \<noteq> None) t" .
  have "map ps_desired_port t = map (\<lambda>i. port + int i) [0..<length h]"
    by (rule nth_equalityI) (simp_all add: len fields)
  then have dist: "distinct (map ps_desired_port t)" by (simp add: distinct_map inj_on_def)
  have all: "list_all attached t" unfolding list_all_length len using att by blast
  show ?thesis
    by (rule exI [of _ t]) (intro conjI run len eq le dist all allI impI fields)
qed

theorem table_of_procfile_witness:
  "\<exists>h table. parse_procfile (Some ''a:b
'') = Ret (Some 0, 1, h) \<and> fiveman_process_state_table_allocate h (Some 0) 5000 = Ret table
     \<and> map ps_desired_port table = [5000]"
proof -
  let ?h = "cells_of [''a'', ''b'']"
  have run: "parse_procfile (Some ''a:b
'') = Ret (Some 0, 1, ?h)"
    by (subst parse_procfile_small)
      (simp_all add: line_size_def tokens.simps other_delim_def token_text_def is_blank_def cstr_def)
  from table_of_procfile [OF this, of 5000] obtain "table" where
    "fiveman_process_state_table_allocate ?h (Some 0) 5000 = Ret table" "length table = 1"
    "ps_desired_port (table ! 0) = 5000" by auto
  moreover from this(2) obtain ps where "table = [ps]" by (cases "table") auto
  ultimately show ?thesis using run by auto
qed

text \<open>C12: A round of converging supervises exactly its own children. When \<open>table_converge\<close> returns, the
  table has the same entries (instruction, port, desired intent and output paths) in the same order,
  and the sampling invariant still holds if it held before. In every run, aborted ones included,
  every signal or probe goes to the positive pid of some entry.\<close>

theorem table_converge_keeps_entries:
  "(\<forall>table' w'. fiveman_process_state_table_converge k table directory w = (Ret table', w') \<longrightarrow>
      list_all2 same_identity table table' \<and> (list_all attached table \<longrightarrow> list_all attached table'))
   \<and> emits (\<lambda>e. own_signal 0 e \<or> (\<exists>ps \<in> set table. own_signal (ps_pid ps) e))
       (fiveman_process_state_table_converge k table directory)"
proof (intro conjI allI impI table_signals)
  fix table' w' assume run: "fiveman_process_state_table_converge k table directory w = (Ret table', w')"
  show "list_all2 same_identity table table'"
    using converging.walk_pointwise [OF run [unfolded fiveman_process_state_table_converge_def]]
    by (rule list_all2_mono) (simp add: same_process_def)
  assume "list_all attached table"
  then show "list_all attached table'"
    using converging.walk_invariant [OF run [unfolded fiveman_process_state_table_converge_def]]
    by (auto simp: same_process_def)
qed

theorem table_converge_keeps_entries_witness:
  "\<exists>table' w'. fiveman_process_state_table_converge quiet_kernel
      [example_state\<lparr>ps_intent := \<lparr> pi_intent = INTENT_STOP, pi_data = 0 \<rparr>\<rparr>] ''/app'' start_world = (Ret table', w')
    \<and> list_all attached table' \<and> length table' = 1"
proof -
  let ?t = "[example_state\<lparr>ps_intent := \<lparr> pi_intent = INTENT_STOP, pi_data = 0 \<rparr>\<rparr>]"
  obtain table' w' where run: "fiveman_process_state_table_converge quiet_kernel ?t ''/app'' start_world = (Ret table', w')"
    by (simp add: fiveman_process_state_table_converge_def fiveman_process_state_converge_def stat_output_def
        io_simps Let_def quiet_kernel_def example_state_def fiveman_process_state_converge_stop_def)
  have "list_all attached ?t" by (simp add: attached_def example_state_def)
  with run show ?thesis
    using table_converge_keeps_entries [where k = quiet_kernel and table = ?t and directory = "''/app''" and w = start_world]
    by (auto dest: list_all2_lengthD)
qed

text \<open>\<open>table_signal\<close> signals the process group of every entry that has a pid, once, in table order,
  and makes no other call; it cannot fail.\<close>

theorem table_signal_reaches_all:
  "fiveman_process_state_table_signal k table sig w = (Ret (), w\<lparr>trace := trace w
     @ map (\<lambda>ps. Killpg (ps_pid ps) sig) (filter (\<lambda>ps. 0 < ps_pid ps) table)\<rparr>)"
  by (rule table_signal_run)

text \<open>\<open>num_alive\<close> probes every entry that has a pid, once, in table order and with signal 0 only, and
  returns how many of the probes succeeded; in particular it is 0 exactly when none did.\<close>

theorem num_alive_counts_probes:
  "\<exists>n w' es. fiveman_process_state_table_num_alive k table w = (Ret n, w')
     \<and> trace w' = trace w @ es
     \<and> map (\<lambda>e. case e of Kill p s b \<Rightarrow> (p, s) | _ \<Rightarrow> (0, 1)) es
         = map (\<lambda>ps. (ps_pid ps, 0)) (filter (\<lambda>ps. 0 < ps_pid ps) table)
     \<and> n = length (filter (\<lambda>e. case e of Kill p s b \<Rightarrow> b | _ \<Rightarrow> False) es)"
  using num_alive_from_run [of k "table" 0 w] by (auto simp: fiveman_process_state_table_num_alive_def)

text \<open>A new wish reaches every entry at the next reflection and not before. \<open>table_desires_intent\<close>
  leaves every current intent alone, and \<open>table_reflect_desired_intent\<close> then makes it the wished one,
  changing neither the data of the intent nor anything else.\<close>

theorem desires_then_reflect:
  "map ps_intent (fiveman_process_state_table_desires_intent table intent) = map ps_intent table
   \<and> fiveman_process_state_table_reflect_desired_intent (fiveman_process_state_table_desires_intent table intent)
      = map (\<lambda>ps. ps\<lparr>ps_intent := \<lparr> pi_intent = intent, pi_data = pi_data (ps_intent ps) \<rparr>,
          ps_desired_intent := \<lparr> pi_intent = intent, pi_data = pi_data (ps_desired_intent ps) \<rparr>\<rparr>) table"
  by (auto simp: fiveman_process_state_table_desires_intent_def fiveman_process_state_desires_intent_def
      fiveman_process_state_table_reflect_desired_intent_def fiveman_process_state_reflect_desired_intent_def)

text \<open>Tearing the table down removes every output file. Deallocation always returns; apart from
  detaching the samplers it unlinks the two output paths of every entry, each once and in table order,
  and it leaves every entry detached and without paths.\<close>

theorem table_deallocate_unlinks:
  "\<exists>table' w' es. fiveman_process_state_table_deallocate k table w = (Ret table', w')
     \<and> trace w' = trace w @ es
     \<and> filter (\<lambda>e. \<not> sampling_event e) es
         = concat (map (\<lambda>ps. [Unlink (ps_stdout ps), Unlink (ps_stderr ps)]) table)
     \<and> table' = map (\<lambda>ps. ps\<lparr>ps_sample_ctxt := None, ps_stdout := None, ps_stderr := None\<rparr>) table"
proof -
  obtain table' w' es where run: "fiveman_process_state_deallocate k table w = (Ret table', w')"
    "trace w' = trace w @ es" "filter (\<lambda>e. \<not> sampling_event e) es
       = concat (map (\<lambda>ps. [Unlink (ps_stdout ps), Unlink (ps_stderr ps)]) table)"
    using deallocate_unlinks by blast
  have "list_all2 (\<lambda>ps ps'. ps' = ps\<lparr>ps_sample_ctxt := None, ps_stdout := None, ps_stderr := None\<rparr>) table table'"
    using deallocating.walk_pointwise [OF run(1) [unfolded fiveman_process_state_deallocate_def]] .
  then have "table' = map (\<lambda>ps. ps\<lparr>ps_sample_ctxt := None, ps_stdout := None, ps_stderr := None\<rparr>) table"
    by (induction rule: list_all2_induct) auto
  with run show ?thesis by (auto simp: fiveman_process_state_table_deallocate_def io_run)
qed

end
