(* ===== verification/Fiveman_Signals.thy ===== *)
theory Fiveman_Signals
  imports Fiveman_State_Table
begin

text \<open>
  \<open>src/signal_handlers.c\<close>. \<open>dispositions\<close> of the world holds the action installed for each signal. A
  \<open>struct sigaction\<close> whose \<open>sa_flags\<close> was never assigned is passed with \<open>sa_flags = None\<close>: its flags
  are whatever the stack held.
\<close>

section \<open>Handlers\<close>

text \<open>
  The handler reaps the entries of the table \<open>application_state_table\<close> points to, which is \<open>table\<close> or
  null, and changes none of them.
\<close>

definition handle_sigchld :: "kernel \<Rightarrow> process_table \<Rightarrow> process_table eff" where
  "handle_sigchld k table =
     io_bind (io_get application_state_table) (\<lambda>p.
     case p of
       Null_table \<Rightarrow> io_return table
     | Live_table \<Rightarrow> fiveman_process_state_table_reap_zombie_processes k table)"

definition handle_sigint :: "unit eff" where
  "handle_sigint = io_modify (\<lambda>w. w\<lparr>exit_fiveman := True\<rparr>)"

definition handle_childkill :: "unit eff" where
  "handle_childkill = io_fault (Exited 0)"

section \<open>Installing\<close>

text \<open>\<open>if(sigaction(sig, &sa, 0) == -1){ perror(0); exit(1); }\<close>\<close>

definition install :: "kernel \<Rightarrow> int \<Rightarrow> sigaction \<Rightarrow> unit eff" where
  "install k sig sa =
     io_bind (sys_call (\<lambda>h. k_sigaction k h sig) (Sigaction sig)) (\<lambda>ok.
     if ok then io_modify (\<lambda>w. w\<lparr>dispositions := (dispositions w)(sig := sa)\<rparr>)
     else io_then (sys_note Perror) (io_fault (Exited 1)))"

definition uninitialised_sigaction :: "sig_handler \<Rightarrow> sigaction" where
  "uninitialised_sigaction h = \<lparr> sa_handler = h, sa_flags = None \<rparr>"

text \<open>
  In \<open>reset_signal_handlers\<close> the flags of the second action are assigned to \<open>sa\<close>, the first one,
  after its use.
\<close>

definition reset_signal_handlers :: "kernel \<Rightarrow> unit eff" where
  "reset_signal_handlers k =
     (let sa = (uninitialised_sigaction SIG_DFL)\<lparr>sa_flags := Some [SA_RESETHAND]\<rparr>
      in io_then (install k SIGCHLD sa) (
         let intsa = uninitialised_sigaction SIG_DFL;
             sa = sa\<lparr>sa_flags := Some [SA_RESETHAND]\<rparr>
         in install k SIGINT intsa))"

definition install_ignore_sigint_handler :: "kernel \<Rightarrow> unit eff" where
  "install_ignore_sigint_handler k = install k SIGINT (uninitialised_sigaction SIG_IGN)"

definition install_signal_handlers :: "kernel \<Rightarrow> unit eff" where
  "install_signal_handlers k =
     (let sa = (uninitialised_sigaction Handle_sigchld)\<lparr>sa_flags := Some [SA_RESTART, SA_NOCLDSTOP, SA_NOCLDWAIT]\<rparr>
      in io_then (install k SIGCHLD sa) (
         let intsa = uninitialised_sigaction Handle_sigint
         in install k SIGINT intsa))"

definition install_child_kill_handler :: "kernel \<Rightarrow> unit eff" where
  "install_child_kill_handler k = install k SIGTERM (uninitialised_sigaction Handle_childkill)"

text \<open>\<open>signal\<close> sets a handler without checking the result.\<close>

definition signal_disposition :: "int \<Rightarrow> sig_handler \<Rightarrow> unit eff" where
  "signal_disposition sig h =
     io_modify (\<lambda>w. w\<lparr>dispositions := (dispositions w)(sig := \<lparr> sa_handler = h, sa_flags = Some [SA_RESTART] \<rparr>)\<rparr>)"

definition ignore_sigpipe :: "unit eff" where
  "ignore_sigpipe = signal_disposition SIGPIPE SIG_IGN"

definition restore_sigpipe :: "unit eff" where
  "restore_sigpipe = signal_disposition SIGPIPE SIG_DFL"

definition reap_zombie_processes :: "kernel \<Rightarrow> unit eff" where
  "reap_zombie_processes k =
     retry ''waitpid'' (io_bind (sys_waitpid k (- 1)) (\<lambda>r. io_return (r > 0))) (k_fuel k)"

section \<open>Lemmas\<close>

lemma install_run:
  "install k sig sa w =
     (if k_sigaction k (trace w) sig
      then (Ret (), w\<lparr>trace := trace w @ [Sigaction sig True], dispositions := (dispositions w)(sig := sa)\<rparr>)
      else (Fault (Exited 1), w\<lparr>trace := trace w @ [Sigaction sig False, Perror]\<rparr>))"
  by (simp add: install_def sys_call_def Let_def io_simps)

lemma install_Ret:
  "install k sig sa w = (Ret u, w') \<Longrightarrow> dispositions w' = (dispositions w)(sig := sa)
     \<and> trace w' = trace w @ [Sigaction sig True] \<and> exit_fiveman w' = exit_fiveman w"
  by (auto simp: install_run split: if_splits)

text \<open>Two actions installed one after the other.\<close>

lemma install_two_run:
  "io_then (install k sig1 sa1) (install k sig2 sa2) w =
     (if k_sigaction k (trace w) sig1
      then if k_sigaction k (trace w @ [Sigaction sig1 True]) sig2
        then (Ret (), w\<lparr>trace := trace w @ [Sigaction sig1 True, Sigaction sig2 True],
                dispositions := (dispositions w)(sig1 := sa1, sig2 := sa2)\<rparr>)
        else (Fault (Exited 1), w\<lparr>trace := trace w @ [Sigaction sig1 True, Sigaction sig2 False, Perror],
                dispositions := (dispositions w)(sig1 := sa1)\<rparr>)
      else (Fault (Exited 1), w\<lparr>trace := trace w @ [Sigaction sig1 False, Perror]\<rparr>))"
  by (simp add: io_run install_run)

lemma handle_sigchld_Ret: "handle_sigchld k table w = (Ret table', w') \<Longrightarrow> table' = table"
proof -
  assume run: "handle_sigchld k table w = (Ret table', w')"
  show "table' = table"
  proof (cases "application_state_table w")
    case Live_table
    with run have "list_all2 (\<lambda>ps ps'. ps' = ps) table table'"
      using reaping.walk_pointwise
      by (simp add: handle_sigchld_def io_run fiveman_process_state_table_reap_zombie_processes_def)
    then show ?thesis by (induction rule: list_all2_induct) auto
  qed (use run in \<open>simp_all add: handle_sigchld_def io_run\<close>)
qed

lemma handle_sigchld_calls:
  "emits (\<lambda>e. \<exists>ps \<in> set table. 0 < ps_pid ps \<and> (\<exists>r. e = Waitpid (ps_pid ps) r)) (handle_sigchld k table)"
  unfolding handle_sigchld_def fiveman_process_state_table_reap_zombie_processes_def
    fiveman_process_state_reap_zombie_processes_def
  by (auto intro!: emits_intros split: table_pointer.split) blast

section \<open>Properties\<close>

text \<open>The SIGCHLD handler only reaps. It changes no entry of the table and not the exit flags, and every
  call it makes is a \<open>waitpid\<close> for the positive pid of an entry; before the table is registered it
  makes no call at all.\<close>

theorem sigchld_handler_only_reaps:
  "(\<forall>table' w'. handle_sigchld k table w = (Ret table', w') \<longrightarrow> table' = table)
   \<and> emits (\<lambda>e. \<exists>ps \<in> set table. 0 < ps_pid ps \<and> (\<exists>r. e = Waitpid (ps_pid ps) r)) (handle_sigchld k table)
   \<and> (application_state_table w = Null_table \<longrightarrow> handle_sigchld k table w = (Ret table, w))"
  using handle_sigchld_Ret [of k "table" w] handle_sigchld_calls [of "table" k]
  by (auto simp: handle_sigchld_def io_run)

text \<open>C40: Which dispositions the four installers leave. \<open>install_signal_handlers\<close> routes SIGCHLD to the reaping
  handler without zombies or stop notifications and SIGINT to the handler that asks for the exit;
  \<open>reset_signal_handlers\<close> puts both back to the default; \<open>install_ignore_sigint_handler\<close> ignores SIGINT and
  \<open>install_child_kill_handler\<close> routes SIGTERM to the handler that exits. Every SIGINT and SIGTERM action, also the reset one,
  is passed with flags that were never set; in \<open>install_signal_handlers\<close> and \<open>reset_signal_handlers\<close> the
  assignment is missing or goes to the other structure. An installer returns when every \<open>sigaction\<close> it makes succeeds; at the first that
  fails it reports the error, makes no further call and ends the program with status 1.\<close>

theorem installed_dispositions:
  "(\<forall>w'. install_signal_handlers k w = (Ret (), w') \<longrightarrow>
      trace w' = trace w @ [Sigaction SIGCHLD True, Sigaction SIGINT True] \<and> dispositions w' = (dispositions w)(
        SIGCHLD := \<lparr> sa_handler = Handle_sigchld, sa_flags = Some [SA_RESTART, SA_NOCLDSTOP, SA_NOCLDWAIT] \<rparr>,
        SIGINT := \<lparr> sa_handler = Handle_sigint, sa_flags = None \<rparr>))
   \<and> (\<forall>w'. reset_signal_handlers k w = (Ret (), w') \<longrightarrow>
      trace w' = trace w @ [Sigaction SIGCHLD True, Sigaction SIGINT True] \<and> dispositions w' = (dispositions w)(
        SIGCHLD := \<lparr> sa_handler = SIG_DFL, sa_flags = Some [SA_RESETHAND] \<rparr>,
        SIGINT := \<lparr> sa_handler = SIG_DFL, sa_flags = None \<rparr>))
   \<and> (\<forall>w'. install_ignore_sigint_handler k w = (Ret (), w') \<longrightarrow>
      trace w' = trace w @ [Sigaction SIGINT True]
        \<and> dispositions w' = (dispositions w)(SIGINT := \<lparr> sa_handler = SIG_IGN, sa_flags = None \<rparr>))
   \<and> (\<forall>w'. install_child_kill_handler k w = (Ret (), w') \<longrightarrow>
      trace w' = trace w @ [Sigaction SIGTERM True]
        \<and> dispositions w' = (dispositions w)(SIGTERM := \<lparr> sa_handler = Handle_childkill, sa_flags = None \<rparr>))
   \<and> (\<forall>f e w'. f \<in> {install_signal_handlers k, reset_signal_handlers k, install_ignore_sigint_handler k,
        install_child_kill_handler k} \<and> f w = (Fault e, w') \<longrightarrow>
      e = Exited 1 \<and> (\<exists>earlier sig. trace w' = trace w @ earlier @ [Sigaction sig False, Perror]
        \<and> earlier \<in> {[], [Sigaction SIGCHLD True]}))"
  unfolding install_signal_handlers_def reset_signal_handlers_def install_ignore_sigint_handler_def
    install_child_kill_handler_def uninitialised_sigaction_def Let_def
  by (auto simp: install_run install_two_run split: if_splits)

theorem installed_dispositions_witness:
  "\<exists>w'. install_signal_handlers quiet_kernel start_world = (Ret (), w')
     \<and> dispositions w' SIGINT = \<lparr> sa_handler = Handle_sigint, sa_flags = None \<rparr>"
proof -
  obtain w' where "install_signal_handlers quiet_kernel start_world = (Ret (), w')"
    by (simp add: install_signal_handlers_def install_two_run quiet_kernel_def Let_def)
  with installed_dispositions [of quiet_kernel start_world] show ?thesis by (auto simp: SIGINT_def SIGCHLD_def)
qed

end
