(* ===== verification/Fiveman_Screen.thy ===== *)
theory Fiveman_Screen
  imports Fiveman_Measure Fiveman_State_Table Fiveman_Signals
begin

text \<open>
  The rest of \<open>src/ncurses_screen.c\<close>: the entries the screen shows, the lines it draws and the loop of
  \<open>draw_screen\<close>, which reads keys, passes the user's wishes to the table and drives the shutdown.
  One iteration of the loop is a function of the shared thread record and of the loop's automatic
  variables; the status thread runs between and during iterations (\<open>Fiveman_System\<close>).
\<close>

section \<open>Shared data\<close>

text \<open>
  The fields of \<open>fiveman_status_thread\<close> that are not pthread handles. \<open>th_table\<close> is the process table
  both threads work on.
\<close>

record fiveman_status_thread =
  th_exit :: bool
  th_table :: process_table
  th_num_entries :: nat
  th_cur_entries :: "fiveman_ncurses_screen_entry list"
  th_prev_entries :: "fiveman_ncurses_screen_entry list"
  th_directory :: string

section \<open>Entries\<close>

definition update_screen_entry ::
  "kernel \<Rightarrow> fiveman_process_state \<Rightarrow> fiveman_ncurses_screen_entry \<Rightarrow> fiveman_ncurses_screen_entry eff" where
  "update_screen_entry k ps entry =
     io_bind (fiveman_process_state_current_activity k ps) (\<lambda>activity.
     io_bind (fiveman_process_state_lifetime k ps) (\<lambda>age.
     io_return (entry\<lparr>en_activity := activity, en_pid := ps_pid ps, en_age := age,
       en_sample := ps_sample ps,
       en_stdout_active := fiveman_process_state_stdout_has_new_entries ps,
       en_stderr_active := fiveman_process_state_stderr_has_new_entries ps\<rparr>)))"

definition initialize_screen_entry ::
  "kernel \<Rightarrow> nat \<Rightarrow> fiveman_process_state \<Rightarrow> fiveman_ncurses_screen_entry eff" where
  "initialize_screen_entry k row ps = update_screen_entry k ps (zero_entry\<lparr>en_state := Some row\<rparr>)"

section \<open>Drawing an entry\<close>

text \<open>A pointer into the table; \<open>states[i]\<close> and \<open>entry->state\<close>.\<close>

definition table_at :: "process_table \<Rightarrow> int \<Rightarrow> fiveman_process_state eff" where
  "table_at table i =
     (if 0 \<le> i \<and> i < int (length table) then io_return (table ! nat i) else io_fault (OutOfBounds ''states''))"

definition activity_title :: "FIVEMAN_PROCESS_CURRENT_ACTIVITY \<Rightarrow> string" where
  "activity_title a = (case a of
       FIVEMAN_PROCESS_STOPPED \<Rightarrow> ''STOPPED''
     | FIVEMAN_PROCESS_RUNNING \<Rightarrow> ''ACTIVE''
     | FIVEMAN_PROCESS_STARTING_UP \<Rightarrow> ''LAUNCHING''
     | FIVEMAN_PROCESS_SHUTTING_DOWN \<Rightarrow> ''STOPPING''
     | FIVEMAN_PROCESS_UNKNOWN \<Rightarrow> ''UNKNOWN'')"

definition buffer_text :: "(nat \<times> char list) res \<Rightarrow> string res" where
  "buffer_text r = (case r of Fault e \<Rightarrow> Fault e | Ret (written, buf) \<Rightarrow> Ret (cstr buf))"

definition memory_cell :: "u64 \<Rightarrow> int \<Rightarrow> string res" where
  "memory_cell m size' = buffer_text (byte_measurement_string (sint m) (zeros (Suc (nat size'))) 0 (nat size'))"

definition readwrite_cell :: "u64 \<Rightarrow> u64 \<Rightarrow> int \<Rightarrow> string res" where
  "readwrite_cell r w size' =
     buffer_text (readwrite_byte_measurement_string (sint r) (sint w) (zeros (Suc (nat size'))) (nat size'))"

text \<open>
  The strings of the eleven cells, each formatted into a zeroed array one byte longer than the size
  it is formatted with. A null name or command under \<open>%s\<close> is undefined in C and a fault here.
\<close>

definition entry_cells ::
  "kernel \<Rightarrow> process_table \<Rightarrow> fiveman_ncurses_screen_entry \<Rightarrow> fiveman_ncurses_screen_extents \<Rightarrow> string list eff" where
  "entry_cells k table entry ext =
     io_bind (deref ''entry->state'' (en_state entry)) (\<lambda>row.
     io_bind (table_at table (int row)) (\<lambda>ps.
     io_bind (deref ''name'' (instr_name (ps_instruction ps))) (\<lambda>name.
     io_bind (deref ''exec'' (instr_exec (ps_instruction ps))) (\<lambda>cmd.
     io_bind (fiveman_process_state_current_activity k ps) (\<lambda>activity.
     io_bind (fiveman_process_state_lifetime_str k ps (nat (age_size ext))) (\<lambda>age_str.
     io_bind (io_res (memory_cell (memory_usage (en_sample entry)) (mem_size ext))) (\<lambda>mem_str.
     io_bind (io_res (readwrite_cell (io_read_rate (en_sample entry)) (io_write_rate (en_sample entry)) (io_size ext))) (\<lambda>io_str.
     io_bind (io_res (readwrite_cell (net_read_rate (en_sample entry)) (net_write_rate (en_sample entry)) (net_size ext))) (\<lambda>net_str.
     io_bind (io_res (readwrite_cell (fs_read_rate (en_sample entry)) (fs_write_rate (en_sample entry)) (fs_size ext))) (\<lambda>fs_str.
     io_return
       [snprintf_text (nat (name_size ext)) (name @ '': '' @ cmd),
        snprintf_text (nat (pid_size ext)) (dec_int (en_pid entry)),
        snprintf_text (nat (state_size ext)) (activity_title activity),
        age_str,
        snprintf_text (nat (cpu_size ext)) (dec_int (sint (cpu_usage (en_sample entry))) @ ''%''),
        mem_str, net_str, io_str, fs_str,
        snprintf_text (nat (stdout_size ext)) (if en_stdout_active entry then ''*'' else []),
        snprintf_text (nat (stderr_size ext)) (if en_stderr_active entry then ''*'' else [])]))))))))))"

definition draw_screen_entry ::
  "kernel \<Rightarrow> process_table \<Rightarrow> fiveman_ncurses_screen_entry \<Rightarrow> int \<Rightarrow> bool \<Rightarrow>
   fiveman_ncurses_screen_extents \<Rightarrow> unit eff" where
  "draw_screen_entry k table entry row highlighted ext =
     io_bind (entry_cells k table entry ext) (\<lambda>cells.
     io_then (curses (Move row 0)) (
     io_then (curses Clrtoeol) (
     io_then (io_when highlighted (curses Attron_bold)) (
     io_then (draw_cells row 0 (spacing_size ext) (zip cells (column_sizes ext))) (
     io_when highlighted (curses Attroff_bold))))))"

section \<open>The loop\<close>

definition KEY_DOWN :: int where "KEY_DOWN = 258"
definition KEY_UP :: int where "KEY_UP = 259"

definition key :: "char \<Rightarrow> int" where
  "key c = of_char c"

definition with_lock :: "'a eff \<Rightarrow> 'a eff" where
  "with_lock m =
     io_then (sys_note Mutex_lock) (
     io_bind m (\<lambda>x.
     io_then (sys_note Mutex_unlock) (
     io_return x)))"

text \<open>The automatic variables of \<open>draw_screen\<close> that live across iterations.\<close>

record ui =
  ui_highlighted_row :: int
  ui_max_row :: int
  ui_max_col :: int
  ui_extents :: fiveman_ncurses_screen_extents
  ui_is_terminating :: bool
  ui_term_issued_at :: int

definition term_timeout :: int where "term_timeout = 100"

definition sys_getmaxyx :: "kernel \<Rightarrow> (int \<times> int) eff" where
  "sys_getmaxyx k = sys_call (k_getmaxyx k) Getmaxyx"

text \<open>\<open>getch\<close> waits up to a second; SIGINT may arrive meanwhile.\<close>

definition sys_getch :: "kernel \<Rightarrow> int eff" where
  "sys_getch k =
     io_bind (sys_call (k_getch k) Getch) (\<lambda>c.
     io_bind (io_get (\<lambda>w. k_sigint k (trace w))) (\<lambda>interrupted.
     io_then (io_when interrupted handle_sigint) (
     io_return c)))"

fun draw_entries ::
  "kernel \<Rightarrow> fiveman_status_thread \<Rightarrow> ui \<Rightarrow> nat list \<Rightarrow> unit eff" where
  "draw_entries k th u [] = io_return ()"
| "draw_entries k th u (i # is) =
     io_then (with_lock (
       if i < length (th_cur_entries th)
       then draw_screen_entry k (th_table th) (th_cur_entries th ! i) (2 + int i)
              (ui_highlighted_row u = int i) (ui_extents u)
       else io_fault (OutOfBounds ''cur_entries'')))
     (draw_entries k th u is)"

definition draw_frame ::
  "kernel \<Rightarrow> string \<Rightarrow> string \<Rightarrow> fiveman_status_thread \<Rightarrow> ui \<Rightarrow> ui eff" where
  "draw_frame k procfile directory th u =
     io_bind (sys_getmaxyx k) (\<lambda>(max_row, max_col).
     let redraw = (max_row \<noteq> ui_max_row u \<or> max_col \<noteq> ui_max_col u);
         u = u\<lparr>ui_max_row := max_row, ui_max_col := max_col\<rparr>;
         u = (if redraw then u\<lparr>ui_extents := update_screen_extents max_row max_col\<rparr> else u)
     in io_then (io_when redraw (
          io_then (curses Clear) (
          io_then (draw_headers (ui_extents u) 1)
            (draw_ui_text procfile directory max_row max_col)))) (
        io_then (draw_entries k th u [0..<th_num_entries th]) (
        io_then (curses Refresh) (
        io_return u))))"

text \<open>\<open>states[highlighted_row]\<close> is changed in place: an update of that entry of the table.\<close>

definition update_selected ::
  "(fiveman_process_state \<Rightarrow> fiveman_process_state eff) \<Rightarrow> fiveman_status_thread \<Rightarrow> ui \<Rightarrow> fiveman_status_thread eff" where
  "update_selected f th u =
     io_bind (table_at (th_table th) (ui_highlighted_row u)) (\<lambda>ps.
     io_bind (f ps) (\<lambda>ps'.
     io_return (th\<lparr>th_table := (th_table th)[nat (ui_highlighted_row u) := ps']\<rparr>)))"

definition handle_key ::
  "kernel \<Rightarrow> fiveman_pager_fork \<Rightarrow> nat \<Rightarrow> int \<Rightarrow> fiveman_status_thread \<Rightarrow> ui \<Rightarrow> (fiveman_status_thread \<times> ui) eff" where
  "handle_key k pager_fork total_states c th u =
     (if c = key CHR ''q'' then
        io_then (io_modify (\<lambda>w. w\<lparr>exit_fiveman := True\<rparr>)) (io_return (th, u))
      else if c = key CHR ''r'' then io_then (curses Refresh) (io_return (th, u))
      else if c = key CHR ''s'' then
        io_bind (with_lock (update_selected (\<lambda>ps. io_return (fiveman_process_state_desires_intent ps INTENT_STOP)) th u))
          (\<lambda>th'. io_return (th', u))
      else if c = key CHR ''l'' then
        io_bind (with_lock (update_selected (\<lambda>ps. io_return (fiveman_process_state_desires_intent ps INTENT_START)) th u))
          (\<lambda>th'. io_return (th', u))
      else if c = key CHR ''o'' then
        io_then suspend_screen (
        io_bind (update_selected (\<lambda>ps. fiveman_process_state_page_stdout k ps pager_fork) th u) (\<lambda>th'.
        io_then resume_screen (io_return (th', u))))
      else if c = key CHR ''e'' then
        io_then suspend_screen (
        io_bind (update_selected (\<lambda>ps. fiveman_process_state_page_stderr k ps pager_fork) th u) (\<lambda>th'.
        io_then resume_screen (io_return (th', u))))
      else if c = KEY_UP then
        let row = ui_highlighted_row u - 1
        in io_return (th, u\<lparr>ui_highlighted_row := (if row < 0 then 0 else row)\<rparr>)
      else if c = KEY_DOWN then
        let row = ui_highlighted_row u + 1;
            row = (if int total_states \<le> row then int total_states - 1 else row)
        in io_return (th, u\<lparr>ui_highlighted_row := (if row < 0 then 0 else row)\<rparr>)
      else io_return (th, u))"

definition check_termination :: "kernel \<Rightarrow> fiveman_status_thread \<Rightarrow> ui \<Rightarrow> unit eff" where
  "check_termination k th u =
     io_when (ui_is_terminating u) (with_lock (
       io_bind (fiveman_process_state_table_num_alive k (th_table th)) (\<lambda>alive.
       if alive > 0 then
         io_bind (sys_time k) (\<lambda>current.
         let diff = int32 (current - ui_term_issued_at u);
             immediately = (diff \<ge> term_timeout)
         in io_then (io_modify (\<lambda>w. w\<lparr>exit_fiveman_immediately := immediately\<rparr>))
              (fiveman_process_state_table_signal k (th_table th) (if immediately then SIGKILL else SIGTERM)))
       else io_modify (\<lambda>w. w\<lparr>exit_fiveman_immediately := True\<rparr>))))"

definition request_exit ::
  "kernel \<Rightarrow> fiveman_status_thread \<Rightarrow> ui \<Rightarrow> (fiveman_status_thread \<times> ui) eff" where
  "request_exit k th u =
     io_bind (io_get exit_fiveman) (\<lambda>exit.
     if exit then with_lock (
       io_bind (sys_time k) (\<lambda>now.
       io_then (io_modify (\<lambda>w. w\<lparr>exit_fiveman := False\<rparr>))
         (io_return (th\<lparr>th_table := fiveman_process_state_table_desires_intent (th_table th) INTENT_STOP\<rparr>,
            u\<lparr>ui_term_issued_at := now, ui_is_terminating := True\<rparr>))))
     else io_return (th, u))"

text \<open>One iteration; the boolean says whether the loop is left.\<close>

definition draw_iteration ::
  "kernel \<Rightarrow> string \<Rightarrow> string \<Rightarrow> nat \<Rightarrow> fiveman_pager_fork \<Rightarrow> fiveman_status_thread \<Rightarrow> ui \<Rightarrow>
   (bool \<times> fiveman_status_thread \<times> ui) eff" where
  "draw_iteration k procfile directory total_states pager_fork th u =
     io_bind (draw_frame k procfile directory th u) (\<lambda>u.
     io_bind (sys_getch k) (\<lambda>c.
     io_bind (handle_key k pager_fork total_states c th u) (\<lambda>(th, u).
     io_then (check_termination k th u) (
     io_bind (io_get exit_fiveman_immediately) (\<lambda>immediately.
     if immediately then io_return (True, th, u)
     else io_bind (request_exit k th u) (\<lambda>(th, u). io_return (False, th, u)))))))"

text \<open>
  The loop, with what the status thread does to the shared record between two iterations as the
  parameter \<open>others\<close>, for at most \<open>n\<close> iterations.
\<close>

fun draw_loop ::
  "kernel \<Rightarrow> (fiveman_status_thread \<Rightarrow> fiveman_status_thread eff) \<Rightarrow> string \<Rightarrow> string \<Rightarrow> nat \<Rightarrow> fiveman_pager_fork \<Rightarrow>
   nat \<Rightarrow> fiveman_status_thread \<Rightarrow> ui \<Rightarrow> (fiveman_status_thread \<times> ui) eff" where
  "draw_loop k others procfile directory num pager_fork 0 th u = io_fault (NeverReturns ''draw_screen'')"
| "draw_loop k others procfile directory num pager_fork (Suc n) th u =
     io_bind (others th) (\<lambda>th.
     io_bind (draw_iteration k procfile directory num pager_fork th u) (\<lambda>(stop, th, u).
     if stop then io_return (th, u)
     else draw_loop k others procfile directory num pager_fork n th u))"

text \<open>
  What \<open>draw_screen\<close> does before its loop: the screen is measured, the array \<open>states\<close> of \<open>total_states\<close>
  pointers is filled by a walk to the end of the table, and the frame around the rows is drawn.
\<close>

definition enter_screen :: "kernel \<Rightarrow> string \<Rightarrow> string \<Rightarrow> process_table \<Rightarrow> nat \<Rightarrow> ui eff" where
  "enter_screen k procfile directory table total_states =
     io_bind (sys_getmaxyx k) (\<lambda>(max_row, max_col).
     let ext = update_screen_extents max_row max_col
     in if total_states < length table then io_fault (OutOfBounds ''states'')
        else io_then (draw_ui_text procfile directory max_row max_col) (
             io_then (draw_headers ext 1) (
             io_return \<lparr> ui_highlighted_row = 0, ui_max_row = max_row, ui_max_col = max_col, ui_extents = ext,
               ui_is_terminating = False, ui_term_issued_at = 0 \<rparr>)))"

definition draw_screen ::
  "kernel \<Rightarrow> (fiveman_status_thread \<Rightarrow> fiveman_status_thread eff) \<Rightarrow> string \<Rightarrow> string \<Rightarrow> nat \<Rightarrow>
   fiveman_status_thread \<Rightarrow> fiveman_pager_fork \<Rightarrow> (fiveman_status_thread \<times> ui) eff" where
  "draw_screen k others procfile directory total_states th pager_fork =
     io_bind (enter_screen k procfile directory (th_table th) total_states)
       (draw_loop k others procfile directory total_states pager_fork (k_fuel k) th)"

section \<open>Lemmas\<close>

lemma table_at_run [io_simps]:
  "table_at table i w = (if 0 \<le> i \<and> i < int (length table) then (Ret (table ! nat i), w) else (Fault (OutOfBounds ''states''), w))"
  by (simp add: table_at_def io_run)

lemma with_lock_Ret:
  assumes "with_lock m w = (Ret x, w')"
  obtains v where "m (w\<lparr>trace := trace w @ [Mutex_lock]\<rparr>) = (Ret x, v)"
    "w' = v\<lparr>trace := trace v @ [Mutex_unlock]\<rparr>"
  using assms by (auto simp: with_lock_def io_simps split: prod.splits res.splits)

lemma num_alive_run:
  "\<exists>n es. fiveman_process_state_table_num_alive k table w = (Ret n, w\<lparr>trace := trace w @ es\<rparr>)
     \<and> n = length (filter (\<lambda>e. case e of Kill p s b \<Rightarrow> b | _ \<Rightarrow> False) es) \<and> deeds es = []
     \<and> (0 < n \<longleftrightarrow> found_alive es)"
proof -
  obtain es where es: "fiveman_process_state_table_num_alive k table w
      = (Ret (length (filter (\<lambda>e. case e of Kill p s b \<Rightarrow> b | _ \<Rightarrow> False) es)), w\<lparr>trace := trace w @ es\<rparr>)"
    and m: "map (\<lambda>e. case e of Kill p s b \<Rightarrow> (p, s) | _ \<Rightarrow> (0, 1)) es
         = map (\<lambda>ps. (ps_pid ps, 0)) (filter (\<lambda>ps. 0 < ps_pid ps) table)"
    using num_alive_from_run [of k "table" 0 w] by (auto simp: fiveman_process_state_table_num_alive_def)
  have "snd (case e of Kill p s b \<Rightarrow> (p, s) | _ \<Rightarrow> (0, 1)) = 0" if "e \<in> set es" for e
  proof -
    have "(case e of Kill p s b \<Rightarrow> (p, s) | _ \<Rightarrow> (0, 1)) \<in> set (map (\<lambda>e. case e of Kill p s b \<Rightarrow> (p, s) | _ \<Rightarrow> (0, 1)) es)"
      using that by (simp only: set_map imageI)
    then show ?thesis unfolding m by auto
  qed
  moreover have "\<not> is_deed e" if "snd (case e of Kill p s b \<Rightarrow> (p, s) | _ \<Rightarrow> (0, 1)) = (0 :: int)" for e
    using that by (cases e) (simp_all add: is_deed_def)
  ultimately have "\<not> is_deed e" if "e \<in> set es" for e using that by blast
  then have "deeds es = []" by (auto simp: deeds_def filter_empty_conv)
  moreover have "0 < length (filter (\<lambda>e. case e of Kill p s b \<Rightarrow> b | _ \<Rightarrow> False) es) \<longleftrightarrow> found_alive es"
    by (auto simp: found_alive_def list_ex_iff filter_empty_conv)
  ultimately show ?thesis using es by blast
qed

text \<open>One round of the shutdown, with \<open>killed\<close> the signals sent and \<open>now\<close> the clock when something lives.\<close>

definition signals_to :: "process_table \<Rightarrow> int \<Rightarrow> event list" where
  "signals_to table sig = map (\<lambda>ps. Killpg (ps_pid ps) sig) (filter (\<lambda>ps. 0 < ps_pid ps) table)"

lemma deeds_signals_to [simp]: "deeds (signals_to table sig) = signals_to table sig"
  unfolding signals_to_def deeds_def by (induction "table") (simp_all add: is_deed_def)

lemma found_alive_signals_to [simp]: "\<not> found_alive (signals_to table sig)"
  unfolding signals_to_def by (induction "table") (simp_all add: found_alive_def)

text \<open>The calls and the result of a round, complete.\<close>

lemma check_termination_exact:
  assumes "ui_is_terminating u"
  shows "\<exists>ps w'. check_termination k th u w = (Ret (), w') \<and> probed (th_table th) ps \<and> exit_fiveman w' = exit_fiveman w
    \<and> (if found_alive ps then \<exists>now late. late = (100 \<le> int32 (now - ui_term_issued_at u))
         \<and> trace w' = trace w @ Mutex_lock # ps @ Time now
             # signals_to (th_table th) (if late then SIGKILL else SIGTERM) @ [Mutex_unlock]
         \<and> exit_fiveman_immediately w' = late
       else trace w' = trace w @ Mutex_lock # ps @ [Mutex_unlock] \<and> exit_fiveman_immediately w')"
proof -
  let ?w1 = "w\<lparr>trace := trace w @ [Mutex_lock]\<rparr>"
  obtain n es where na: "fiveman_process_state_table_num_alive k (th_table th) ?w1 = (Ret n, ?w1\<lparr>trace := trace ?w1 @ es\<rparr>)"
    and es: "probed (th_table th) es" "0 < n \<longleftrightarrow> found_alive es"
    using num_alive_probes by blast
  show ?thesis
  proof (cases "0 < n")
    case True
    obtain now where now: "k_time k (trace w @ Mutex_lock # es) = now" by simp
    define late where "late = (100 \<le> int32 (now - ui_term_issued_at u))"
    have "check_termination k th u w = (Ret (), w\<lparr>exit_fiveman_immediately := late, trace := trace w @ Mutex_lock # es @ Time now
        # signals_to (th_table th) (if late then SIGKILL else SIGTERM) @ [Mutex_unlock]\<rparr>)"
      using assms True na
      by (simp add: check_termination_def with_lock_def io_simps table_signal_run signals_to_def now
          late_def term_timeout_def Let_def)
    with True es show ?thesis
      by (intro exI [of _ es] exI [of _ "w\<lparr>exit_fiveman_immediately := late, trace := trace w @ Mutex_lock # es @ Time now
        # signals_to (th_table th) (if late then SIGKILL else SIGTERM) @ [Mutex_unlock]\<rparr>"])
        (auto simp: late_def)
  next
    case False
    then have "check_termination k th u w
        = (Ret (), w\<lparr>exit_fiveman_immediately := True, trace := trace w @ Mutex_lock # es @ [Mutex_unlock]\<rparr>)"
      using assms na by (simp add: check_termination_def with_lock_def io_simps)
    with False es show ?thesis
      by (intro exI [of _ es] exI [of _ "w\<lparr>exit_fiveman_immediately := True, trace := trace w @ Mutex_lock # es @ [Mutex_unlock]\<rparr>"]) simp
  qed
qed

lemma check_termination_run:
  assumes "ui_is_terminating u"
  shows "\<exists>es w'. check_termination k th u w = (Ret (), w') \<and> trace w' = trace w @ es
    \<and> (if found_alive es then \<exists>now. Time now \<in> set es
         \<and> exit_fiveman_immediately w' = (term_timeout \<le> int32 (now - ui_term_issued_at u))
         \<and> deeds es = signals_to (th_table th) (if exit_fiveman_immediately w' then SIGKILL else SIGTERM)
       else exit_fiveman_immediately w' \<and> deeds es = [])
    \<and> exit_fiveman w' = exit_fiveman w"
proof -
  let ?w1 = "w\<lparr>trace := trace w @ [Mutex_lock]\<rparr>"
  obtain n es where na: "fiveman_process_state_table_num_alive k (th_table th) ?w1 = (Ret n, ?w1\<lparr>trace := trace ?w1 @ es\<rparr>)"
    and es: "deeds es = []" "0 < n \<longleftrightarrow> found_alive es"
    using num_alive_run by blast
  show ?thesis
  proof (cases "0 < n")
    case True
    obtain now where now: "k_time k (trace w @ Mutex_lock # es) = now" by simp
    define imm where "imm = (term_timeout \<le> int32 (now - ui_term_issued_at u))"
    let ?es = "Mutex_lock # es @ [Time now] @ signals_to (th_table th) (if imm then SIGKILL else SIGTERM) @ [Mutex_unlock]"
    have "check_termination k th u w = (Ret (), w\<lparr>exit_fiveman_immediately := imm, trace := trace w @ ?es\<rparr>)"
      using assms True na
      by (simp add: check_termination_def with_lock_def io_simps table_signal_run signals_to_def now
          imm_def Let_def)
    moreover have "found_alive ?es" using es(2) True by (simp add: found_alive_def)
    moreover have "deeds ?es = signals_to (th_table th) (if imm then SIGKILL else SIGTERM)"
      using es(1) deeds_signals_to by (simp add: deeds_def is_deed_def)
    ultimately show ?thesis by (intro exI [of _ ?es] exI [of _ "w\<lparr>exit_fiveman_immediately := imm, trace := trace w @ ?es\<rparr>"])
      (auto simp: imm_def)
  next
    case False
    let ?es = "Mutex_lock # es @ [Mutex_unlock]"
    have "check_termination k th u w = (Ret (), w\<lparr>exit_fiveman_immediately := True, trace := trace w @ ?es\<rparr>)"
      using assms False na by (simp add: check_termination_def with_lock_def io_simps)
    moreover have "\<not> found_alive ?es" "deeds ?es = []" using es False
      by (simp_all add: found_alive_def deeds_def is_deed_def)
    ultimately show ?thesis
      by (intro exI [of _ ?es] exI [of _ "w\<lparr>exit_fiveman_immediately := True, trace := trace w @ ?es\<rparr>"]) simp
  qed
qed

lemma request_exit_run:
  "request_exit k th u w =
     (if exit_fiveman w then
        let now = k_time k (trace w @ [Mutex_lock])
        in (Ret (th\<lparr>th_table := fiveman_process_state_table_desires_intent (th_table th) INTENT_STOP\<rparr>,
               u\<lparr>ui_term_issued_at := now, ui_is_terminating := True\<rparr>),
            w\<lparr>exit_fiveman := False, trace := trace w @ [Mutex_lock, Time now, Mutex_unlock]\<rparr>)
      else (Ret (th, u), w))"
  by (simp add: request_exit_def with_lock_def io_simps Let_def)

lemma update_selected_Ret:
  assumes "update_selected f th u w = (Ret th', w')"
  obtains ps ps' where "0 \<le> ui_highlighted_row u" "ui_highlighted_row u < int (length (th_table th))"
    "f (th_table th ! nat (ui_highlighted_row u)) w = (Ret ps', w')"
    "th' = th\<lparr>th_table := (th_table th)[nat (ui_highlighted_row u) := ps']\<rparr>"
  using assms by (auto simp: update_selected_def io_simps split: if_splits prod.splits res.splits)

text \<open>The keys are different numbers.\<close>

lemma key_numbers: "key CHR ''q'' = 113" "key CHR ''r'' = 114" "key CHR ''s'' = 115" "key CHR ''l'' = 108"
  "key CHR ''o'' = 111" "key CHR ''e'' = 101"
  by (simp_all add: key_def)

section \<open>Only the shutdown code decides to leave the loop\<close>

text \<open>A global that the screen does not use outside the shutdown: the keys set \<open>exit_fiveman\<close> only.\<close>

locale screen_variable = global_variable +
  assumes exit_kept [simp]: "f (w\<lparr>exit_fiveman := b\<rparr>) = f w"
begin

lemma keeps_with_lock [keeps_intros]: "keeps f m \<Longrightarrow> keeps f (with_lock m)"
  unfolding with_lock_def by (intro keeps_intros)

lemma keeps_curses_all [keeps_intros]: "keeps f (curses_all ops)"
  by (induction ops) (auto intro!: keeps_intros)

lemma keeps_draw_cells [keeps_intros]: "keeps f (draw_cells row col sp cells)"
  by (induction cells arbitrary: col) (auto intro!: keeps_intros)

lemma keeps_process [keeps_intros]:
  "keeps f (fiveman_process_state_is_alive k ps)"
  "keeps f (fiveman_process_state_lifetime k ps)"
  "keeps f (fiveman_process_state_lifetime_str k ps n)"
  "keeps f (fiveman_process_state_current_activity k ps)"
  "keeps f (table_at table i)"
  unfolding fiveman_process_state_is_alive_def fiveman_process_state_lifetime_def
    fiveman_process_state_lifetime_str_def fiveman_process_state_current_activity_def table_at_def
  by (auto intro!: keeps_intros)

lemma keeps_draw_entry [keeps_intros]: "keeps f (draw_screen_entry k table en row h ext)"
  unfolding draw_screen_entry_def entry_cells_def by (intro keeps_intros)

lemma keeps_draw_entries [keeps_intros]: "keeps f (draw_entries k th u is)"
  by (induction "is") (auto intro!: keeps_intros)

lemma keeps_frame: "keeps f (draw_frame k procfile directory th u)"
  unfolding draw_frame_def sys_getmaxyx_def draw_headers_def draw_ui_text_def Let_def
  by (auto intro!: keeps_intros split: prod.split)

lemma keeps_getch: "keeps f (sys_getch k)"
  unfolding sys_getch_def handle_sigint_def by (auto intro!: keeps_intros)

lemma keeps_page [keeps_intros]:
  "keeps f (fiveman_process_state_page_stdout k ps fork)"
  "keeps f (fiveman_process_state_page_stderr k ps fork)"
  unfolding fiveman_process_state_page_stdout_def fiveman_process_state_page_stderr_def
    fiveman_pager_fork_page_file_def fiveman_pager_fork_wait_for_confirm_def Let_def
  by (auto intro!: keeps_intros)

lemma keeps_update_selected [keeps_intros]:
  "(\<And>ps. keeps f (g ps)) \<Longrightarrow> keeps f (update_selected g th u)"
  unfolding update_selected_def by (intro keeps_intros)

lemma keeps_handle_key: "keeps f (handle_key k fork n c th u)"
  unfolding handle_key_def suspend_screen_def resume_screen_def Let_def
  by (intro keeps_intros; simp)

end

interpretation immediately: screen_variable exit_fiveman_immediately
  by unfold_locales simp_all

lemma draw_frame_Ret:
  "draw_frame k procfile directory th u w = (Ret u', w') \<Longrightarrow>
     ui_is_terminating u' = ui_is_terminating u \<and> ui_term_issued_at u' = ui_term_issued_at u
     \<and> ui_highlighted_row u' = ui_highlighted_row u"
  by (auto simp: draw_frame_def Let_def io_run(1) split: prod.splits if_splits elim!: io_elims)

lemma handle_key_Ret:
  assumes "handle_key k fork n c th u w = (Ret (th', u'), w')"
  shows "ui_is_terminating u' = ui_is_terminating u \<and> ui_term_issued_at u' = ui_term_issued_at u
     \<and> length (th_table th') = length (th_table th) \<and> th_num_entries th' = th_num_entries th
     \<and> (0 \<le> ui_highlighted_row u \<and> ui_highlighted_row u < int n
          \<longrightarrow> 0 \<le> ui_highlighted_row u' \<and> ui_highlighted_row u' < int n)"
  using assms unfolding handle_key_def Let_def
  by (auto simp: io_run(1) split: if_splits elim!: io_elims with_lock_Ret update_selected_Ret)

lemma iteration_Ret:
  assumes "draw_iteration k procfile directory n fork th u w = (Ret (stop, th', u'), w')"
  obtains th1 u1 w1 w2 c where
    "exit_fiveman_immediately w1 = exit_fiveman_immediately w"
    "ui_is_terminating u1 = ui_is_terminating u" "ui_term_issued_at u1 = ui_term_issued_at u"
    "length (th_table th1) = length (th_table th)"
    "check_termination k th1 u1 w1 = (Ret (), w2)"
    "stop = exit_fiveman_immediately w2"
    "if stop then (th', u', w') = (th1, u1, w2) else request_exit k th1 u1 w2 = (Ret (th', u'), w')"
proof -
  obtain u0 wa c wb th1 u1 w1 w2 where
    f: "draw_frame k procfile directory th u w = (Ret u0, wa)" and
    g: "sys_getch k wa = (Ret c, wb)" and
    h: "handle_key k fork n c th u0 wb = (Ret (th1, u1), w1)" and
    t: "check_termination k th1 u1 w1 = (Ret (), w2)" and
    r: "(if exit_fiveman_immediately w2 then io_return (True, th1, u1)
         else io_bind (request_exit k th1 u1) (\<lambda>(th, u). io_return (False, th, u))) w2 = (Ret (stop, th', u'), w')"
    using assms unfolding draw_iteration_def
    by (auto elim!: io_bind_Ret io_then_Ret simp: io_run(6))
  have "exit_fiveman_immediately w1 = exit_fiveman_immediately w"
    using keepsD [OF immediately.keeps_frame f] keepsD [OF immediately.keeps_getch g] keepsD [OF immediately.keeps_handle_key h] by simp
  moreover have "ui_is_terminating u1 = ui_is_terminating u" "ui_term_issued_at u1 = ui_term_issued_at u"
    "length (th_table th1) = length (th_table th)"
    using draw_frame_Ret [OF f] handle_key_Ret [OF h] by simp_all
  moreover have "stop = exit_fiveman_immediately w2"
    "if stop then (th', u', w') = (th1, u1, w2) else request_exit k th1 u1 w2 = (Ret (th', u'), w')"
    using r by (auto simp: io_run(1) split: if_splits elim!: io_bind_Ret)
  ultimately show thesis using t by (intro that)
qed

section \<open>The cells of an entry\<close>

lemma activity_returns: "\<exists>a w'. fiveman_process_state_current_activity k ps w = (Ret a, w')"
  by (auto simp: fiveman_process_state_current_activity_def io_simps)

text \<open>A sample whose counters are below \<open>2^63\<close>, so that they are not negative as \<open>long long\<close>.\<close>

definition small_sample :: "fiveman_process_statistics_sample \<Rightarrow> bool" where
  "small_sample s \<longleftrightarrow> (\<forall>v \<in> {memory_usage s, io_read_rate s, io_write_rate s, net_read_rate s, net_write_rate s,
     fs_read_rate s, fs_write_rate s}. uint v < 2 ^ 63)"

lemma sint_small: "uint (v :: u64) < 2 ^ 63 \<Longrightarrow> 0 \<le> sint v \<and> sint v < 2 ^ 63"
proof -
  assume a: "uint v < 2 ^ 63"
  have "sint v = signed_take_bit 63 (uint v)" by (simp add: sint_uint)
  also have "\<dots> = uint v" using a by (intro signed_take_bit_int_eq_self) (auto intro: order_trans [OF _ uint_ge_0])
  finally show ?thesis using a by simp
qed

lemma extents_sizes:
  "update_screen_extents maxy maxx = \<lparr> name_size = max 0 (maxx - 135), state_size = 20, pid_size = 10, age_size = 30,
     cpu_size = 5, mem_size = 12, net_size = 12, io_size = 12, fs_size = 12, stdout_size = 6, stderr_size = 6,
     spacing_size = 1 \<rparr>"
  by (simp add: update_screen_extents_def)

text \<open>
  The eleven texts of a row, as the screen is meant to show them, on a screen of \<open>maxx\<close> columns: \<open>alive\<close> is the answer to the
  probe, \<open>now\<close> the clock. Each is cut to the width of its column.
\<close>

definition state_title :: "FIVEMAN_INTENT \<Rightarrow> bool \<Rightarrow> string" where
  "state_title intent alive =
     (case intent of INTENT_START \<Rightarrow> if alive then ''ACTIVE'' else ''LAUNCHING''
      | INTENT_STOP \<Rightarrow> if alive then ''STOPPING'' else ''STOPPED'' | _ \<Rightarrow> ''UNKNOWN'')"

definition row_texts ::
  "int \<Rightarrow> string \<Rightarrow> string \<Rightarrow> fiveman_process_state \<Rightarrow> fiveman_ncurses_screen_entry \<Rightarrow> bool \<Rightarrow> int \<Rightarrow> string list" where
  "row_texts maxx name cmd ps entry alive now =
     (let s = en_sample entry
      in [take (nat (maxx - 135) - 1) (name @ '': '' @ cmd),
          take 9 (dec_int (en_pid entry)),
          take 19 (state_title (pi_intent (ps_intent ps)) (0 < ps_pid ps \<and> alive)),
          take 29 (lifetime_text (int32 (now - ps_last_state_change ps))),
          take 4 (dec_int (sint (cpu_usage s)) @ ''%''),
          take 11 (byte_measurement_text (sint (memory_usage s))),
          readwrite_shown (sint (net_read_rate s)) (sint (net_write_rate s)) 12,
          readwrite_shown (sint (io_read_rate s)) (sint (io_write_rate s)) 12,
          readwrite_shown (sint (fs_read_rate s)) (sint (fs_write_rate s)) 12,
          take 5 (if en_stdout_active entry then ''*'' else []),
          take 5 (if en_stderr_active entry then ''*'' else [])])"

text \<open>The probe of \<open>current_activity\<close>, which only START and STOP make.\<close>

definition activity_probe :: "fiveman_process_state \<Rightarrow> bool \<Rightarrow> event list" where
  "activity_probe ps alive =
     (if pi_intent (ps_intent ps) \<in> {INTENT_START, INTENT_STOP} \<and> 0 < ps_pid ps then [Kill (ps_pid ps) 0 alive] else [])"

lemma activity_run:
  "\<exists>alive a. fiveman_process_state_current_activity k ps w = (Ret a, w\<lparr>trace := trace w @ activity_probe ps alive\<rparr>)
     \<and> activity_title a = state_title (pi_intent (ps_intent ps)) (0 < ps_pid ps \<and> alive)"
  by (cases "pi_intent (ps_intent ps)"; intro exI [of _ "k_kill k (trace w) (ps_pid ps) 0"])
    (auto simp: fiveman_process_state_current_activity_def io_simps activity_probe_def activity_title_def state_title_def)

lemma memory_cell_shown:
  "uint m < 2 ^ 63 \<Longrightarrow> 0 < n \<Longrightarrow> memory_cell m n = Ret (take (nat n - 1) (byte_measurement_text (sint m)))"
  using measurement_buffer [of "sint m" "nat n"] sint_small [of m] by (auto simp: memory_cell_def buffer_text_def)

lemma readwrite_cell_shown:
  "uint r < 2 ^ 63 \<Longrightarrow> uint v < 2 ^ 63 \<Longrightarrow> 0 < n \<Longrightarrow>
   readwrite_cell r v n = Ret (readwrite_shown (sint r) (sint v) (nat n)) \<and> length (readwrite_shown (sint r) (sint v) (nat n)) \<le> nat n"
  using readwrite_buffer [of "sint r" "sint v" "nat n"] sint_small [of r] sint_small [of v]
  by (auto simp: readwrite_cell_def buffer_text_def)

lemma entry_cells_texts:
  assumes "en_state entry = Some row" "row < length table"
    and "instr_name (ps_instruction (table ! row)) = Some name" "instr_exec (ps_instruction (table ! row)) = Some cmd"
    and small: "small_sample (en_sample entry)"
  shows "\<exists>alive now. entry_cells k table entry (update_screen_extents maxy maxx) w
      = (Ret (row_texts maxx name cmd (table ! row) entry alive now),
         w\<lparr>trace := trace w @ activity_probe (table ! row) alive @ [Time now]\<rparr>)
    \<and> list_all2 (\<lambda>s n. int (length s) \<le> n) (row_texts maxx name cmd (table ! row) entry alive now)
        (column_sizes (update_screen_extents maxy maxx))"
proof -
  let ?s = "en_sample entry" and ?ps = "table ! row"
  obtain alive a where a: "fiveman_process_state_current_activity k ?ps w = (Ret a, w\<lparr>trace := trace w @ activity_probe ?ps alive\<rparr>)"
    "activity_title a = state_title (pi_intent (ps_intent ?ps)) (0 < ps_pid ?ps \<and> alive)"
    using activity_run by blast
  define now where "now = k_time k (trace w @ activity_probe ?ps alive)"
  have fit: "uint (memory_usage ?s) < 2 ^ 63" "uint (io_read_rate ?s) < 2 ^ 63" "uint (io_write_rate ?s) < 2 ^ 63"
    "uint (net_read_rate ?s) < 2 ^ 63" "uint (net_write_rate ?s) < 2 ^ 63" "uint (fs_read_rate ?s) < 2 ^ 63"
    "uint (fs_write_rate ?s) < 2 ^ 63"
    using small by (simp_all add: small_sample_def)
  note rw = readwrite_cell_shown [OF fit(2,3), of 12] readwrite_cell_shown [OF fit(4,5), of 12]
    readwrite_cell_shown [OF fit(6,7), of 12]
  have width: "nat (max 0 (maxx - 135)) = nat (maxx - 135)" by simp
  have run: "entry_cells k table entry (update_screen_extents maxy maxx) w
      = (Ret (row_texts maxx name cmd ?ps entry alive now),
         w\<lparr>trace := trace w @ activity_probe ?ps alive @ [Time now]\<rparr>)"
    using assms(1-4) a rw memory_cell_shown [OF fit(1), of 12]
    by (simp add: entry_cells_def io_simps fiveman_process_state_lifetime_str_def fiveman_process_state_lifetime_def
        row_texts_def extents_sizes snprintf_text_def now_def [symmetric] width Let_def)
  have "list_all2 (\<lambda>s n. int (length s) \<le> n) (row_texts maxx name cmd ?ps entry alive now)
        (column_sizes (update_screen_extents maxy maxx))"
  proof -
    have name: "int (length (take (nat (maxx - 135) - 1) t)) \<le> max 0 (maxx - 135)" for t :: string by simp
    have cut: "m \<le> l \<Longrightarrow> length (take m t) \<le> l" for m l and t :: string by simp
    from name [of "name @ '': '' @ cmd"] show ?thesis using rw
      by (simp add: row_texts_def column_sizes_def extents_sizes width Let_def cut del: length_take length_append take_append)
  qed
  with run show ?thesis by blast
qed

lemma entry_cells_run:
  assumes "en_state entry = Some row" "row < length table"
    and "instr_name (ps_instruction (table ! row)) = Some name" "instr_exec (ps_instruction (table ! row)) = Some cmd"
    and small: "small_sample (en_sample entry)"
  shows "\<exists>cells w'. entry_cells k table entry (update_screen_extents maxy maxx) w = (Ret cells, w')"
  using entry_cells_texts [OF assms] by blast

text \<open>The calls that put texts at columns of a line.\<close>

definition placed :: "int \<Rightarrow> (int \<times> string) list \<Rightarrow> event list" where
  "placed y cells = concat (map (\<lambda>(c, s). [Curses (Move y c), Curses (Addstr s)]) cells)"

lemma place_cells_zip:
  "length cells = length sizes \<Longrightarrow>
   place_cells col sp (zip cells sizes) = zip (map fst (place_cells col sp (map (\<lambda>n. ([], n)) sizes))) cells"
  by (induction cells sizes arbitrary: col rule: list_induct2) auto

lemma draw_cells_placed:
  "length cells = length (column_sizes e) \<Longrightarrow> draw_cells y 0 (spacing_size e) (zip cells (column_sizes e)) w
     = (Ret (), w\<lparr>trace := trace w @ placed y (zip (column_starts e) cells)\<rparr>)"
  by (simp add: draw_cells_run place_cells_zip column_starts_def placed_def)

definition header_titles :: "string list" where
  "header_titles = [''PROCESS'', ''PID'', ''STATE'', ''AGE'', ''CPU'', ''MEM'', ''NET R/W'', ''IO R/W'', ''FS R/W'', ''STDOUT'', ''STDERR'']"

lemma draw_headers_placed:
  "draw_headers e y w = (Ret (), w\<lparr>trace := trace w @ Curses Clrtoeol # placed y (zip (column_starts e) header_titles)\<rparr>)"
proof -
  have "length header_titles = length (column_sizes e)" by (simp add: header_titles_def column_sizes_def)
  from draw_cells_placed [OF this] show ?thesis
    by (simp add: draw_headers_def io_simps header_titles_def column_sizes_def)
qed

section \<open>Properties\<close>

text \<open>C11: The loop is left only when there is nothing more to do. An iteration that ends the loop belongs to a
  shutdown that an earlier iteration started, and its last calls are, under the lock, one probe of every process that has a
  pid, after which either none of them had answered and nothing more was called, or some had answered, 100 seconds or
  more had passed since the request, and every process group with a pid was sent SIGKILL.\<close>

theorem loop_left_only_when_done:
  assumes "draw_iteration k procfile directory n fork th u w = (Ret (True, th', u'), w')"
    and "\<not> exit_fiveman_immediately w"
  shows "ui_is_terminating u \<and> (\<exists>pre ps. probed (th_table th') ps
    \<and> (if found_alive ps
       then \<exists>now. 100 \<le> int32 (now - ui_term_issued_at u)
         \<and> trace w' = pre @ Mutex_lock # ps @ Time now # signals_to (th_table th') SIGKILL @ [Mutex_unlock]
       else trace w' = pre @ Mutex_lock # ps @ [Mutex_unlock]))"
  using assms(1)
proof (rule iteration_Ret)
  fix th1 u1 w1 w2
  assume a: "exit_fiveman_immediately w1 = exit_fiveman_immediately w"
    "ui_is_terminating u1 = ui_is_terminating u" "ui_term_issued_at u1 = ui_term_issued_at u"
    "check_termination k th1 u1 w1 = (Ret (), w2)" "True = exit_fiveman_immediately w2"
    "if True then (th', u', w') = (th1, u1, w2) else request_exit k th1 u1 w2 = (Ret (th', u'), w')"
  have going: "ui_is_terminating u1"
  proof (rule ccontr)
    assume "\<not> ui_is_terminating u1"
    then have "w2 = w1" using a(4) by (simp add: check_termination_def io_simps)
    with a(1,5) assms(2) show False by simp
  qed
  from check_termination_exact [OF this, of k th1 w1] a(4) obtain ps where ps: "probed (th_table th1) ps"
    "if found_alive ps then \<exists>now late. late = (100 \<le> int32 (now - ui_term_issued_at u1))
         \<and> trace w2 = trace w1 @ Mutex_lock # ps @ Time now
             # signals_to (th_table th1) (if late then SIGKILL else SIGTERM) @ [Mutex_unlock]
         \<and> exit_fiveman_immediately w2 = late
       else trace w2 = trace w1 @ Mutex_lock # ps @ [Mutex_unlock] \<and> exit_fiveman_immediately w2" by auto
  with going a show ?thesis by (intro conjI exI [of _ "trace w1"] exI [of _ ps]) (auto split: if_splits)
qed

definition example_ui :: ui where
  "example_ui = \<lparr> ui_highlighted_row = 0, ui_max_row = 24, ui_max_col = 80,
     ui_extents = update_screen_extents 24 80, ui_is_terminating = True, ui_term_issued_at = 900 \<rparr>"

definition example_thread :: "process_table \<Rightarrow> fiveman_status_thread" where
  "example_thread table = \<lparr> th_exit = False, th_table = table, th_num_entries = 0, th_cur_entries = [],
     th_prev_entries = [], th_directory = ''/app'' \<rparr>"

theorem loop_left_only_when_done_witness:
  "\<exists>th u w. draw_iteration quiet_kernel ''P'' ''/app'' 0 example_fork (example_thread []) example_ui start_world
     = (Ret (True, th, u), w) \<and> ui_is_terminating example_ui"
proof -
  obtain th u w where run: "draw_iteration quiet_kernel ''P'' ''/app'' 0 example_fork (example_thread []) example_ui start_world
     = (Ret (True, th, u), w)"
    by (simp add: draw_iteration_def draw_frame_def sys_getmaxyx_def sys_getch_def sys_call_def handle_key_def
        check_termination_def with_lock_def fiveman_process_state_table_num_alive_def quiet_kernel_def
        example_thread_def example_ui_def io_simps key_numbers KEY_UP_def KEY_DOWN_def Let_def)
  with loop_left_only_when_done [OF run] show ?thesis by (simp add: start_world_def)
qed

text \<open>C18: A shutdown round. While the shutdown is in progress, a round always returns, and all its calls are these: under the
  lock it probes every process that has a pid, once and in the order of the table; with nothing alive it then orders the loop
  to end and signals nobody; with something alive it looks at the clock and sends SIGTERM to every
  process group with a pid, and SIGKILL instead, with the order to end, once 100 seconds have passed
  since the request.\<close>

theorem shutdown_round:
  assumes "ui_is_terminating u"
  shows "\<exists>ps w'. check_termination k th u w = (Ret (), w') \<and> exit_fiveman w' = exit_fiveman w
    \<and> list_all2 (\<lambda>p e. \<exists>b. e = Kill (ps_pid p) 0 b) (filter (\<lambda>p. 0 < ps_pid p) (th_table th)) ps
    \<and> (if found_alive ps then \<exists>now late. late = (100 \<le> int32 (now - ui_term_issued_at u))
         \<and> trace w' = trace w @ Mutex_lock # ps @ Time now
             # map (\<lambda>p. Killpg (ps_pid p) (if late then SIGKILL else SIGTERM)) (filter (\<lambda>p. 0 < ps_pid p) (th_table th))
             @ [Mutex_unlock]
         \<and> exit_fiveman_immediately w' = late
       else trace w' = trace w @ Mutex_lock # ps @ [Mutex_unlock] \<and> exit_fiveman_immediately w')"
  using check_termination_exact [OF assms] unfolding probed_def signals_to_def by blast

theorem shutdown_round_witness:
  "\<exists>w'. check_termination quiet_kernel (example_thread [example_state]) example_ui start_world = (Ret (), w')
     \<and> exit_fiveman_immediately w'"
proof -
  let ?w = "start_world\<lparr>exit_fiveman_immediately := True, trace := [Mutex_lock, Mutex_unlock]\<rparr>"
  have "check_termination quiet_kernel (example_thread [example_state]) example_ui start_world = (Ret (), ?w)"
    by (simp add: check_termination_def with_lock_def fiveman_process_state_table_num_alive_def example_state_def
        example_thread_def example_ui_def io_simps start_world_def)
  moreover have "ui_is_terminating example_ui" by (simp add: example_ui_def)
  ultimately show ?thesis
    using shutdown_round [of example_ui quiet_kernel "example_thread [example_state]" start_world]
    by (auto simp: example_state_def example_thread_def)
qed

text \<open>C36: Asking again to quit puts the kill off. Whatever the state of the shutdown, an iteration that finds
  the exit flag set moves the start of the 100 seconds to the present; a later round in which some
  process answers and the clock has not advanced 100 seconds from there sends SIGTERM only and does
  not end the loop, however long ago the first request was made.\<close>

theorem repeated_quit_postpones_kill:
  assumes "exit_fiveman w"
  shows "\<exists>now th' u' w'. request_exit k th u w = (Ret (th', u'), w')
    \<and> trace w' = trace w @ [Mutex_lock, Time now, Mutex_unlock]
    \<and> ui_is_terminating u' \<and> ui_term_issued_at u' = now \<and> \<not> exit_fiveman w'
    \<and> map (pi_intent \<circ> ps_desired_intent) (th_table th') = replicate (length (th_table th)) INTENT_STOP
    \<and> (\<forall>th2 v v' es. check_termination k th2 u' v = (Ret (), v') \<and> trace v' = trace v @ es \<and> found_alive es
         \<and> (\<forall>t. Time t \<in> set es \<longrightarrow> now \<le> t \<and> t - now < 100) \<longrightarrow>
         \<not> exit_fiveman_immediately v' \<and> deeds es = signals_to (th_table th2) SIGTERM)"
proof -
  define now where "now = k_time k (trace w @ [Mutex_lock])"
  let ?u = "u\<lparr>ui_term_issued_at := now, ui_is_terminating := True\<rparr>"
  let ?th = "th\<lparr>th_table := fiveman_process_state_table_desires_intent (th_table th) INTENT_STOP\<rparr>"
  have run: "request_exit k th u w = (Ret (?th, ?u),
      w\<lparr>exit_fiveman := False, trace := trace w @ [Mutex_lock, Time now, Mutex_unlock]\<rparr>)"
    using assms by (simp add: request_exit_run Let_def now_def)
  have "\<not> exit_fiveman_immediately v' \<and> deeds es = signals_to (th_table th2) SIGTERM"
    if c: "check_termination k th2 ?u v = (Ret (), v')" "trace v' = trace v @ es" "found_alive es"
      "\<forall>t. Time t \<in> set es \<longrightarrow> now \<le> t \<and> t - now < 100" for th2 v v' es
  proof -
    have "ui_is_terminating ?u" by simp
    from check_termination_run [OF this, of k th2 v] c(1,2,3) obtain t where t: "Time t \<in> set es"
      "exit_fiveman_immediately v' = (term_timeout \<le> int32 (t - now))"
      "deeds es = signals_to (th_table th2) (if exit_fiveman_immediately v' then SIGKILL else SIGTERM)"
      by auto
    have "int32 (t - now) = t - now" using c(4) t(1) by (intro int32_id) force+
    with t c(4) show ?thesis by (auto simp: term_timeout_def)
  qed
  moreover have "map (pi_intent \<circ> ps_desired_intent) (th_table ?th) = replicate (length (th_table th)) INTENT_STOP"
    by (simp add: fiveman_process_state_table_desires_intent_def fiveman_process_state_desires_intent_def
        comp_def map_replicate_const)
  ultimately show ?thesis using run
    by (intro exI [of _ now] exI [of _ ?th] exI [of _ ?u]
        exI [of _ "w\<lparr>exit_fiveman := False, trace := trace w @ [Mutex_lock, Time now, Mutex_unlock]\<rparr>"]) auto
qed

theorem repeated_quit_postpones_kill_witness:
  "\<exists>th' u' w'. request_exit quiet_kernel (example_thread [example_state]) example_ui (start_world\<lparr>exit_fiveman := True\<rparr>)
     = (Ret (th', u'), w') \<and> ui_term_issued_at example_ui = 900 \<and> ui_term_issued_at u' = 1000"
proof -
  let ?w = "start_world\<lparr>exit_fiveman := True\<rparr>"
  have "exit_fiveman ?w" by simp
  from repeated_quit_postpones_kill [OF this, of quiet_kernel "example_thread [example_state]" example_ui]
  obtain now th' u' w' where r: "request_exit quiet_kernel (example_thread [example_state]) example_ui ?w = (Ret (th', u'), w')"
    "ui_term_issued_at u' = now" by blast
  then have "ui_term_issued_at u' = 1000"
    by (auto simp: request_exit_run quiet_kernel_def Let_def)
  with r show ?thesis by (auto simp: example_ui_def)
qed

lemma launches_spawns:
  "launches k d ps acts q \<Longrightarrow> \<exists>req. Spawn req (Inr (ps_pid q)) \<in> set acts
     \<and> sp_argv req = [''/bin/sh'', ''-c''] @ (case instr_exec (ps_instruction ps) of None \<Rightarrow> [] | Some cmd \<Rightarrow> [cmd])"
  unfolding launches_def by (elim exE conjE) (rule exI, rule conjI, simp, rule disjI1, rule refl, simp add: start_request_def)

text \<open>C37: Launching is not refused during a shutdown. The key \<open>l\<close> changes nothing but the wish of the selected process, which
  becomes START, and leaves the shutdown going. If that process has already stopped (it was never started, or
  its pid answers no probe), then after the next reflection every converge of it that returns spawns
  its command again and makes the new child's pid its pid.\<close>

theorem launch_key_during_shutdown:
  assumes "0 \<le> ui_highlighted_row u" "ui_highlighted_row u < int (length (th_table th))" "ui_is_terminating u"
    and p: "p = th_table th ! nat (ui_highlighted_row u)"
    and dead: "0 < ps_pid p \<longrightarrow> (\<forall>h. \<not> k_kill k h (ps_pid p) 0)"
  shows "\<exists>th' w'. handle_key k fork n (key CHR ''l'') th u w = (Ret (th', u), w') \<and> ui_is_terminating u
    \<and> th' = th\<lparr>th_table := (th_table th)[nat (ui_highlighted_row u) := fiveman_process_state_desires_intent p INTENT_START]\<rparr>
    \<and> (\<forall>d v q v'. fiveman_process_state_converge k
          (fiveman_process_state_table_reflect_desired_intent (th_table th') ! nat (ui_highlighted_row u)) d v = (Ret q, v') \<longrightarrow>
        (\<exists>es req. trace v' = trace v @ es \<and> Spawn req (Inr (ps_pid q)) \<in> set es
           \<and> sp_argv req = [''/bin/sh'', ''-c''] @ (case instr_exec (ps_instruction p) of None \<Rightarrow> [] | Some cmd \<Rightarrow> [cmd])))"
proof -
  let ?h = "nat (ui_highlighted_row u)"
  let ?p = "fiveman_process_state_reflect_desired_intent (fiveman_process_state_desires_intent p INTENT_START)"
  have h: "?h < length (th_table th)" using assms(1,2) by (simp add: nat_less_iff)
  have run: "handle_key k fork n (key CHR ''l'') th u w
      = (Ret (th\<lparr>th_table := (th_table th)[?h := fiveman_process_state_desires_intent p INTENT_START]\<rparr>, u),
         w\<lparr>trace := trace w @ [Mutex_lock, Mutex_unlock]\<rparr>)"
    using assms(1,2) by (simp add: handle_key_def key_numbers with_lock_def update_selected_def io_simps p)
  have entry: "fiveman_process_state_table_reflect_desired_intent
      ((th_table th)[?h := fiveman_process_state_desires_intent p INTENT_START]) ! ?h = ?p"
    using h by (simp add: fiveman_process_state_table_reflect_desired_intent_def)
  have P: "pi_intent (ps_intent ?p) = INTENT_START" "ps_pid ?p = ps_pid p" "ps_instruction ?p = ps_instruction p"
    by (simp_all add: fiveman_process_state_reflect_desired_intent_def fiveman_process_state_desires_intent_def)
  have "\<exists>es req. trace v' = trace v @ es \<and> Spawn req (Inr (ps_pid q)) \<in> set es
      \<and> sp_argv req = [''/bin/sh'', ''-c''] @ (case instr_exec (ps_instruction p) of None \<Rightarrow> [] | Some cmd \<Rightarrow> [cmd])"
    if c: "fiveman_process_state_converge k ?p d v = (Ret q, v')" for d v q v'
  proof -
    obtain es where es: "trace v' = trace v @ es" "converges k d ?p es q" using converge_exact [OF c] by blast
    then obtain out err alive acts where e: "es = Stat (ps_stdout ?p) out # Stat (ps_stderr ?p) err # probe_of ?p alive @ acts"
      "probe_answer k ?p alive"
      "carries_out k d (action_for (pi_intent (ps_intent ?p)) (pi_data (ps_intent ?p)) (0 < ps_pid ?p \<and> alive))
         (?p\<lparr>ps_stdout_stat := stat_result out (ps_stdout_stat ?p), ps_stderr_stat := stat_result err (ps_stderr_stat ?p)\<rparr>) acts q"
      unfolding converges_def by blast
    have "\<not> (0 < ps_pid ?p \<and> alive)" using e(2) dead P(2) by (auto simp: probe_answer_def)
    with e(3) P have "launches k d (?p\<lparr>ps_stdout_stat := stat_result out (ps_stdout_stat ?p),
        ps_stderr_stat := stat_result err (ps_stderr_stat ?p)\<rparr>) acts q"
      by (auto simp: carries_out_def action_for_def Let_def split: if_splits)
    then obtain req where "Spawn req (Inr (ps_pid q)) \<in> set acts"
      "sp_argv req = [''/bin/sh'', ''-c''] @ (case instr_exec (ps_instruction p) of None \<Rightarrow> [] | Some cmd \<Rightarrow> [cmd])"
      using launches_spawns P(3) by fastforce
    with es(1) e(1) show ?thesis by auto
  qed
  with run entry assms(3) show ?thesis by simp
qed

theorem launch_key_during_shutdown_witness:
  "\<exists>th' w'. handle_key quiet_kernel example_fork 1 (key CHR ''l'') (example_thread [example_state]) example_ui start_world
     = (Ret (th', example_ui), w')"
proof -
  have pre: "0 \<le> ui_highlighted_row example_ui"
    "ui_highlighted_row example_ui < int (length (th_table (example_thread [example_state])))"
    "ui_is_terminating example_ui" "example_state = th_table (example_thread [example_state]) ! nat (ui_highlighted_row example_ui)"
    "0 < ps_pid example_state \<longrightarrow> (\<forall>h. \<not> k_kill quiet_kernel h (ps_pid example_state) 0)"
    by (simp_all add: example_ui_def example_thread_def example_state_def quiet_kernel_def)
  from launch_key_during_shutdown [OF pre] show ?thesis by blast
qed

text \<open>C10: What the keys do, and that the selection stays inside the table. From a valid selection every key that returns leads to a valid
  one and a table of the same length, so \<open>states[highlighted_row]\<close> is never out of bounds. Every key other than \<open>o\<close>
  and \<open>e\<close> returns: \<open>s\<close> and \<open>l\<close> set the wish of the selected process to STOP and START, under the lock, the arrows
  move the selection by one row and stop at the first and the last, \<open>q\<close> raises the exit flag, \<open>r\<close> refreshes; and each does
  nothing else.\<close>

theorem selection_stays_valid:
  assumes "0 \<le> ui_highlighted_row u" "ui_highlighted_row u < int n" "n = length (th_table th)"
    and row: "row = ui_highlighted_row u"
  shows "(\<forall>th' u' w'. handle_key k fork n c th u w = (Ret (th', u'), w') \<longrightarrow>
      0 \<le> ui_highlighted_row u' \<and> ui_highlighted_row u' < int n \<and> length (th_table th') = n)
    \<and> (c \<noteq> key CHR ''o'' \<and> c \<noteq> key CHR ''e'' \<longrightarrow>
      handle_key k fork n c th u w =
        (Ret (if c = key CHR ''s'' then th\<lparr>th_table := (th_table th)[nat row := fiveman_process_state_desires_intent (th_table th ! nat row) INTENT_STOP]\<rparr>
              else if c = key CHR ''l'' then th\<lparr>th_table := (th_table th)[nat row := fiveman_process_state_desires_intent (th_table th ! nat row) INTENT_START]\<rparr>
              else th,
              if c = KEY_UP then u\<lparr>ui_highlighted_row := max 0 (row - 1)\<rparr>
              else if c = KEY_DOWN then u\<lparr>ui_highlighted_row := min (int n - 1) (row + 1)\<rparr>
              else u),
         w\<lparr>exit_fiveman := (c = key CHR ''q'' \<or> exit_fiveman w),
           trace := trace w @ (if c = key CHR ''s'' \<or> c = key CHR ''l'' then [Mutex_lock, Mutex_unlock]
                               else if c = key CHR ''r'' then [Curses Refresh] else [])\<rparr>))"
proof (intro conjI impI)
  show "\<forall>th' u' w'. handle_key k fork n c th u w = (Ret (th', u'), w') \<longrightarrow>
      0 \<le> ui_highlighted_row u' \<and> ui_highlighted_row u' < int n \<and> length (th_table th') = n"
    using handle_key_Ret assms by blast
qed (use assms in \<open>auto simp: handle_key_def key_numbers KEY_UP_def KEY_DOWN_def with_lock_def update_selected_def
    io_simps Let_def max_def min_def\<close>)

theorem selection_stays_valid_witness:
  "\<exists>w'. handle_key quiet_kernel example_fork 2 KEY_DOWN (example_thread [example_state, example_state]) example_ui start_world
     = (Ret (example_thread [example_state, example_state], example_ui\<lparr>ui_highlighted_row := 1\<rparr>), w')"
  using selection_stays_valid [of example_ui 2 "example_thread [example_state, example_state]" 0 quiet_kernel example_fork KEY_DOWN start_world]
  by (auto simp: example_ui_def example_thread_def key_numbers KEY_DOWN_def KEY_UP_def)

text \<open>C19: An entry is drawn under its headers and never over its neighbour. For an entry of the table with a
  name and a command and counters below \<open>2^63\<close>, drawing always returns and makes these calls: the probe of the activity,
  a look at the clock for the age, the line is cleared (bold on when highlighted), and then the eleven texts of \<open>row_texts\<close>
  are put, in order, at the eleven columns at which \<open>draw_headers\<close> puts the eleven titles: name and command, pid, state,
  age, percentage, memory, net, io and file rates and the two marks. Each text is at most as wide as its column.\<close>

theorem entry_drawn_in_columns:
  assumes "en_state entry = Some row" "row < length table"
    and "instr_name (ps_instruction (table ! row)) = Some name" "instr_exec (ps_instruction (table ! row)) = Some cmd"
    and "small_sample (en_sample entry)"
    and e: "e = update_screen_extents maxy maxx"
  shows "\<exists>alive now texts w'. texts = row_texts maxx name cmd (table ! row) entry alive now
    \<and> list_all2 (\<lambda>s n. int (length s) \<le> n) texts (column_sizes e)
    \<and> draw_screen_entry k table entry y highlighted e w = (Ret (), w')
    \<and> trace w' = trace w @ activity_probe (table ! row) alive @ [Time now, Curses (Move y 0), Curses Clrtoeol]
        @ (if highlighted then [Curses Attron_bold] else []) @ placed y (zip (column_starts e) texts)
        @ (if highlighted then [Curses Attroff_bold] else [])
    \<and> draw_headers e y w = (Ret (), w\<lparr>trace := trace w @ Curses Clrtoeol # placed y (zip (column_starts e)
        [''PROCESS'', ''PID'', ''STATE'', ''AGE'', ''CPU'', ''MEM'', ''NET R/W'', ''IO R/W'', ''FS R/W'', ''STDOUT'', ''STDERR''])\<rparr>)"
proof -
  obtain alive now where c: "entry_cells k table entry e w = (Ret (row_texts maxx name cmd (table ! row) entry alive now),
      w\<lparr>trace := trace w @ activity_probe (table ! row) alive @ [Time now]\<rparr>)"
    and fit: "list_all2 (\<lambda>s n. int (length s) \<le> n) (row_texts maxx name cmd (table ! row) entry alive now) (column_sizes e)"
    using entry_cells_texts [OF assms(1-5)] unfolding e by blast
  let ?texts = "row_texts maxx name cmd (table ! row) entry alive now"
  let ?es = "activity_probe (table ! row) alive @ [Time now, Curses (Move y 0), Curses Clrtoeol]
     @ (if highlighted then [Curses Attron_bold] else []) @ placed y (zip (column_starts e) ?texts)
     @ (if highlighted then [Curses Attroff_bold] else [])"
  have "draw_screen_entry k table entry y highlighted e w = (Ret (), w\<lparr>trace := trace w @ ?es\<rparr>)"
    using c draw_cells_placed [OF list_all2_lengthD [OF fit]] by (simp add: draw_screen_entry_def io_simps)
  with fit draw_headers_placed [of e y w] show ?thesis
    by (intro exI [of _ alive] exI [of _ now] exI [of _ ?texts] exI [of _ "w\<lparr>trace := trace w @ ?es\<rparr>"])
      (simp add: header_titles_def)
qed

theorem entry_drawn_in_columns_witness:
  "\<exists>w'. draw_screen_entry quiet_kernel [example_state] (zero_entry\<lparr>en_state := Some 0\<rparr>) 2 True
     (update_screen_extents 24 200) start_world = (Ret (), w') \<and> Curses (Addstr ''web: run'') \<in> set (trace w')"
proof -
  let ?entry = "zero_entry\<lparr>en_state := Some 0\<rparr>" and ?e = "update_screen_extents 24 200"
  have pre: "en_state ?entry = Some 0" "0 < length [example_state]"
    "instr_name (ps_instruction ([example_state] ! 0)) = Some ''web''"
    "instr_exec (ps_instruction ([example_state] ! 0)) = Some ''run''" "small_sample (en_sample ?entry)"
    by (simp_all add: small_sample_def zero_entry_def zero_sample_def example_state_def)
  obtain alive now texts w' where run: "texts = row_texts 200 ''web'' ''run'' ([example_state] ! 0) ?entry alive now"
    "draw_screen_entry quiet_kernel [example_state] ?entry 2 True ?e start_world = (Ret (), w')"
    "trace w' = trace start_world @ activity_probe ([example_state] ! 0) alive @ [Time now, Curses (Move 2 0), Curses Clrtoeol]
        @ [Curses Attron_bold] @ placed 2 (zip (column_starts ?e) texts) @ [Curses Attroff_bold]"
    using entry_drawn_in_columns [OF pre refl, where highlighted = True and y = 2 and k = quiet_kernel and w = start_world
        and maxy = 24 and maxx = 200] unfolding if_True by blast
  obtain rest where "texts = ''web: run'' # rest" using run(1) by (simp add: row_texts_def Let_def)
  moreover obtain c cs where "column_starts ?e = c # cs" by (simp add: column_starts_def column_sizes_def)
  ultimately have "Curses (Addstr ''web: run'') \<in> set (trace w')" using run(3) by (simp add: placed_def)
  with run(2) show ?thesis by blast
qed

end
