(* ===== verification/Fiveman_Status_Thread.thy ===== *)
theory Fiveman_Status_Thread
  imports Fiveman_Screen
begin

text \<open>
  \<open>src/fiveman_status_thread.c\<close>: the background thread that converges the table, samples the
  processes and publishes what the screen shows, and its creation and end. A cycle is a function of
  the shared record; how cycles and the screen's iterations interleave is \<open>Fiveman_System\<close>.
\<close>

section \<open>Entries of the whole table\<close>

text \<open>
  The loop that initialises the entries of both arrays, row by row. The arrays have \<open>num\<close> elements,
  the loop runs to the end of the table: a longer table is written past the end. Rows beyond the
  table stay zero.
\<close>

fun initialize_entries ::
  "kernel \<Rightarrow> nat \<Rightarrow> nat \<Rightarrow> process_table \<Rightarrow>
   (fiveman_ncurses_screen_entry list \<times> fiveman_ncurses_screen_entry list) eff" where
  "initialize_entries k num row [] =
     io_return (replicate (num - row) zero_entry, replicate (num - row) zero_entry)"
| "initialize_entries k num row (ps # table) =
     (if row < num then
        io_bind (initialize_screen_entry k row ps) (\<lambda>cur.
        io_bind (initialize_screen_entry k row ps) (\<lambda>prev.
        io_bind (initialize_entries k num (Suc row) table) (\<lambda>(curs, prevs).
        io_return (cur # curs, prev # prevs))))
      else io_fault (OutOfBounds ''draw_entries''))"

text \<open>The loop over the table that samples each process and refreshes its row.\<close>

fun status_rows ::
  "kernel \<Rightarrow> process_table \<Rightarrow> fiveman_ncurses_screen_entry list \<Rightarrow>
   (process_table \<times> fiveman_ncurses_screen_entry list) eff" where
  "status_rows k [] rows = io_return ([], rows)"
| "status_rows k (ps # table) rows =
     io_bind (fiveman_process_state_child_process_status k ps) (\<lambda>ps'.
     case rows of
       [] \<Rightarrow> io_fault (OutOfBounds ''cur_draw_entries'')
     | e # es \<Rightarrow>
         io_bind (update_screen_entry k ps' e) (\<lambda>e'.
         io_bind (status_rows k table es) (\<lambda>(table', es').
         io_return (ps' # table', e' # es'))))"

section \<open>The thread\<close>

text \<open>
  One round of \<open>for(;;)\<close>, up to the decision to leave. The copy to \<open>prev_draw_entries\<close>, which nothing
  reads, is left out.
\<close>

definition update_cycle ::
  "kernel \<Rightarrow> fiveman_status_thread \<Rightarrow> fiveman_ncurses_screen_entry list \<Rightarrow>
   (bool \<times> fiveman_status_thread \<times> fiveman_ncurses_screen_entry list) eff" where
  "update_cycle k th cur_draw_entries =
     io_bind (with_lock (io_return (fiveman_process_state_table_reflect_desired_intent (th_table th)))) (\<lambda>table.
     io_bind (fiveman_process_state_table_reap_zombie_processes k table) (\<lambda>table.
     io_bind (fiveman_process_state_table_converge k table (th_directory th)) (\<lambda>table.
     io_bind (status_rows k table cur_draw_entries) (\<lambda>(table, cur).
     io_bind (with_lock (io_return (th\<lparr>th_table := table, th_cur_entries := cur\<rparr>, th_exit th))) (\<lambda>(th, exit).
     if exit then io_return (True, th, cur)
     else io_then (sys_note (Sleep 1)) (io_return (False, th, cur)))))))"

fun update_rounds ::
  "kernel \<Rightarrow> nat \<Rightarrow> fiveman_status_thread \<Rightarrow> fiveman_ncurses_screen_entry list \<Rightarrow> fiveman_status_thread eff" where
  "update_rounds k 0 th cur = io_fault (NeverReturns ''fiveman_update_thread_main'')"
| "update_rounds k (Suc n) th cur =
     io_bind (update_cycle k th cur) (\<lambda>(exit, th, cur).
     if exit then io_return th else update_rounds k n th cur)"

definition fiveman_update_thread_main :: "kernel \<Rightarrow> fiveman_status_thread \<Rightarrow> fiveman_status_thread eff" where
  "fiveman_update_thread_main k th =
     io_bind (initialize_entries k (th_num_entries th) 0 (th_table th)) (\<lambda>(cur, prev).
     update_rounds k (k_fuel k) th cur)"

section \<open>Creation and end\<close>

definition sys_pthread :: "kernel \<Rightarrow> int eff" where
  "sys_pthread k = sys_call (k_pthread k) Pthread_create"

definition fiveman_status_thread_create ::
  "kernel \<Rightarrow> process_table \<Rightarrow> nat \<Rightarrow> string \<Rightarrow> fiveman_status_thread eff" where
  "fiveman_status_thread_create k table num_entries directory =
     io_bind (initialize_entries k num_entries 0 table) (\<lambda>(cur, prev).
     io_bind (sys_pthread k) (\<lambda>attr.
     io_then (io_assert ''pthread_attr_init'' (attr = 0)) (
     io_bind (sys_pthread k) (\<lambda>mutexattr.
     io_then (io_assert ''pthread_mutexattr_init'' (mutexattr = 0)) (
     io_bind (sys_pthread k) (\<lambda>mutex.
     io_then (io_assert ''pthread_mutex_init'' (mutex = 0)) (
     io_bind (sys_pthread k) (\<lambda>status.
     io_then (io_assert ''status == 0'' (status = 0)) (
     io_return \<lparr> th_exit = False, th_table = table, th_num_entries = num_entries, th_cur_entries = cur,
       th_prev_entries = prev, th_directory = directory \<rparr>)))))))))"

text \<open>
  \<open>pthread_join\<close> returns when the thread has left its loop, which the flag asks it to: what the thread
  still does until then, \<open>rest\<close>, happens before the join returns. Destroying the attributes and
  freeing the record follow.
\<close>

definition fiveman_status_thread_destroy ::
  "(fiveman_status_thread \<Rightarrow> 'a eff) \<Rightarrow> fiveman_status_thread \<Rightarrow> 'a eff" where
  "fiveman_status_thread_destroy rest th =
     io_bind (with_lock (io_return (th\<lparr>th_exit := True\<rparr>))) (\<lambda>th.
     io_bind (rest th) (\<lambda>left.
     io_then (sys_note Pthread_join) (io_return left)))"

section \<open>Lemmas\<close>

lemma update_screen_entry_run:
  "\<exists>e' w'. update_screen_entry k ps e w = (Ret e', w') \<and> en_state e' = en_state e \<and> en_pid e' = ps_pid ps
     \<and> en_sample e' = ps_sample ps
     \<and> en_stdout_active e' = fiveman_process_state_stdout_has_new_entries ps
     \<and> en_stderr_active e' = fiveman_process_state_stderr_has_new_entries ps"
proof -
  obtain a w1 where "fiveman_process_state_current_activity k ps w = (Ret a, w1)"
    using activity_returns by blast
  then show ?thesis by (simp add: update_screen_entry_def fiveman_process_state_lifetime_def io_simps)
qed

text \<open>An entry shows a process: its row, pid, sample and new-output flags.\<close>

definition shows_process :: "nat \<Rightarrow> fiveman_process_state \<Rightarrow> fiveman_ncurses_screen_entry \<Rightarrow> bool" where
  "shows_process row ps e \<longleftrightarrow> en_state e = Some row \<and> en_pid e = ps_pid ps \<and> en_sample e = ps_sample ps
     \<and> en_stdout_active e = fiveman_process_state_stdout_has_new_entries ps
     \<and> en_stderr_active e = fiveman_process_state_stderr_has_new_entries ps"

lemma initialize_entry_run:
  "\<exists>e w'. initialize_screen_entry k row ps w = (Ret e, w') \<and> shows_process row ps e"
  using update_screen_entry_run [of k ps "zero_entry\<lparr>en_state := Some row\<rparr>" w]
  by (auto simp: initialize_screen_entry_def shows_process_def)

lemma initialize_entries_overflow:
  "num < row + length table \<Longrightarrow> row \<le> num \<Longrightarrow>
   \<exists>w'. initialize_entries k num row table w = (Fault (OutOfBounds ''draw_entries''), w')"
proof (induction "table" arbitrary: row w)
  case (Cons ps "table")
  show ?case
  proof (cases "row < num")
    case True
    obtain e1 w1 where e1: "initialize_screen_entry k row ps w = (Ret e1, w1)" using initialize_entry_run by blast
    obtain e2 w2 where e2: "initialize_screen_entry k row ps w1 = (Ret e2, w2)" using initialize_entry_run by blast
    obtain w3 where "initialize_entries k num (Suc row) table w2 = (Fault (OutOfBounds ''draw_entries''), w3)"
      using Cons.IH [of "Suc row" w2] Cons.prems True by auto
    with True e1 e2 show ?thesis by (simp add: io_run)
  qed (simp add: io_run)
qed simp

lemma initialize_entries_ok:
  "row + length table \<le> num \<Longrightarrow>
   \<exists>curs prevs w'. initialize_entries k num row table w = (Ret (curs, prevs), w')
     \<and> length curs = num - row \<and> length prevs = num - row
     \<and> (\<forall>i < length table. shows_process (row + i) (table ! i) (curs ! i))"
proof (induction "table" arbitrary: row w)
  case Nil
  then show ?case by (simp add: io_run)
next
  case (Cons ps "table")
  obtain e1 w1 where e1: "initialize_screen_entry k row ps w = (Ret e1, w1)" "shows_process row ps e1"
    using initialize_entry_run by blast
  obtain e2 w2 where e2: "initialize_screen_entry k row ps w1 = (Ret e2, w2)" using initialize_entry_run by blast
  obtain curs prevs w3 where "initialize_entries k num (Suc row) table w2 = (Ret (curs, prevs), w3)"
    "length curs = num - Suc row" "length prevs = num - Suc row"
    "\<forall>i < length table. shows_process (Suc row + i) (table ! i) (curs ! i)"
    using Cons.IH [of "Suc row" w2] Cons.prems by auto
  with e1 e2 Cons.prems show ?case
    by (auto simp: io_run nth_Cons split: nat.split)
qed

text \<open>
  What each part of a cycle calls for one entry, and what it leaves. Reaping: positive answers of
  \<open>waitpid\<close> until the first one that is not, and nothing for an entry without pid.
\<close>

definition reaped :: "fiveman_process_state \<Rightarrow> event list \<Rightarrow> bool" where
  "reaped ps es \<longleftrightarrow>
     (if 0 < ps_pid ps
      then \<exists>dead none. es = map (Waitpid (ps_pid ps)) (dead @ [none]) \<and> list_all (\<lambda>r. 0 < r) dead \<and> none \<le> 0
      else es = [])"

text \<open>Sampling, from the time \<open>t\<close> on: a run of the sampler when a sample is due.\<close>

definition sampled ::
  "kernel \<Rightarrow> int \<Rightarrow> fiveman_process_state \<Rightarrow> event list \<Rightarrow> fiveman_process_state \<Rightarrow> bool" where
  "sampled k t ps es ps' \<longleftrightarrow>
     (if sample_due t (sample_time (ps_sample ps))
      then \<exists>v v' ps1 s. fiveman_sample_info k ps (ps_sample ps) zero_sample v = (Ret (ps1, s), v')
        \<and> trace v' = trace v @ es \<and> ps' = ps1\<lparr>ps_sample := s\<rparr>
      else es = [] \<and> ps' = ps)"

text \<open>Refreshing: a probe, a sample if it is answered, and the row with the activity and the age.\<close>

definition refreshed ::
  "kernel \<Rightarrow> fiveman_process_state \<Rightarrow> fiveman_ncurses_screen_entry \<Rightarrow> event list \<Rightarrow> fiveman_process_state \<Rightarrow>
   fiveman_ncurses_screen_entry \<Rightarrow> bool" where
  "refreshed k ps e es ps' e' \<longleftrightarrow> (\<exists>alive sampling there now activity.
     es = (if 0 < ps_pid ps then [Kill (ps_pid ps) 0 alive] else []) @ sampling @ activity_probe ps' there @ [Time now]
     \<and> (if 0 < ps_pid ps \<and> alive then \<exists>t rest. sampling = Time t # rest \<and> sampled k t ps rest ps'
        else sampling = [] \<and> ps' = ps)
     \<and> activity_title activity = state_title (pi_intent (ps_intent ps')) (0 < ps_pid ps' \<and> there)
     \<and> e' = e\<lparr>en_activity := activity, en_pid := ps_pid ps', en_age := int32 (now - ps_last_state_change ps'),
         en_sample := ps_sample ps', en_stdout_active := fiveman_process_state_stdout_has_new_entries ps',
         en_stderr_active := fiveman_process_state_stderr_has_new_entries ps'\<rparr>)"

lemma sample_process_Ret:
  assumes "fiveman_process_state_sample_process k ps w = (Ret ps', w')"
  shows "\<exists>t es. trace w' = trace w @ Time t # es \<and> sampled k t ps es ps'"
proof (cases "sample_due (k_time k (trace w)) (sample_time (ps_sample ps))")
  case True
  let ?w1 = "w\<lparr>trace := trace w @ [Time (k_time k (trace w))]\<rparr>"
  obtain ps1 sm where r: "fiveman_sample_info k ps (ps_sample ps) zero_sample ?w1 = (Ret (ps1, sm), w')" "ps' = ps1\<lparr>ps_sample := sm\<rparr>"
    using assms True
    by (fastforce simp: fiveman_process_state_sample_process_def io_simps fiveman_process_state_set_sample_def
        split: prod.splits res.splits)
  obtain es where es: "trace w' = trace ?w1 @ es" using emitsD [OF mac.sample_calls r(1)] by blast
  then have "\<exists>v v' ps1 s. fiveman_sample_info k ps (ps_sample ps) zero_sample v = (Ret (ps1, s), v')
        \<and> trace v' = trace v @ es \<and> ps' = ps1\<lparr>ps_sample := s\<rparr>" using r by blast
  with True have "sampled k (k_time k (trace w)) ps es ps'" unfolding sampled_def by simp
  then show ?thesis using es by (intro exI [of _ "k_time k (trace w)"] exI [of _ es]) simp
next
  case False
  with assms have "ps' = ps" "trace w' = trace w @ [Time (k_time k (trace w))]"
    by (auto simp: fiveman_process_state_sample_process_def io_simps)
  with False show ?thesis
    by (intro exI [of _ "k_time k (trace w)"] exI [of _ "[]"]) (simp add: sampled_def)
qed

lemma refresh_Ret:
  assumes "fiveman_process_state_child_process_status k ps w = (Ret ps', w1)" "update_screen_entry k ps' e w1 = (Ret e', w')"
  shows "\<exists>es. trace w' = trace w @ es \<and> refreshed k ps e es ps' e'"
proof -
  define alive where "alive = k_kill k (trace w) (ps_pid ps) 0"
  let ?probe = "if 0 < ps_pid ps then [Kill (ps_pid ps) 0 alive] else []"
  have "\<exists>sampling. trace w1 = trace w @ ?probe @ sampling
    \<and> (if 0 < ps_pid ps \<and> alive then \<exists>t rest. sampling = Time t # rest \<and> sampled k t ps rest ps'
       else sampling = [] \<and> ps' = ps)"
    using assms(1)
    by (auto simp: fiveman_process_state_child_process_status_def io_simps alive_def [symmetric]
        dest!: sample_process_Ret split: if_splits)
  then obtain sampling where s: "trace w1 = trace w @ ?probe @ sampling"
    "if 0 < ps_pid ps \<and> alive then \<exists>t rest. sampling = Time t # rest \<and> sampled k t ps rest ps'
       else sampling = [] \<and> ps' = ps" by blast
  obtain there a where a: "fiveman_process_state_current_activity k ps' w1 = (Ret a, w1\<lparr>trace := trace w1 @ activity_probe ps' there\<rparr>)"
    "activity_title a = state_title (pi_intent (ps_intent ps')) (0 < ps_pid ps' \<and> there)"
    using activity_run by blast
  define now where "now = k_time k (trace w1 @ activity_probe ps' there)"
  have e: "e' = e\<lparr>en_activity := a, en_pid := ps_pid ps', en_age := int32 (now - ps_last_state_change ps'),
         en_sample := ps_sample ps', en_stdout_active := fiveman_process_state_stdout_has_new_entries ps',
         en_stderr_active := fiveman_process_state_stderr_has_new_entries ps'\<rparr>"
    "trace w' = trace w1 @ activity_probe ps' there @ [Time now]"
    using assms(2) a(1) by (auto simp: update_screen_entry_def fiveman_process_state_lifetime_def io_simps now_def)
  with s a(2) have "refreshed k ps e (?probe @ sampling @ activity_probe ps' there @ [Time now]) ps' e'"
    unfolding refreshed_def by blast
  with s(1) e(2) show ?thesis by (intro exI [of _ "?probe @ sampling @ activity_probe ps' there @ [Time now]"]) simp
qed

lemma status_rows_run:
  "list_all attached table \<Longrightarrow> length table \<le> length es \<Longrightarrow>
   \<exists>table' es' w' calls. status_rows k table es w = (Ret (table', es'), w') \<and> length es' = length es
     \<and> length table' = length table \<and> list_all attached table'
     \<and> trace w' = trace w @ concat calls \<and> length calls = length table
     \<and> (\<forall>i < length table. refreshed k (table ! i) (es ! i) (calls ! i) (table' ! i) (es' ! i))"
proof (induction "table" arbitrary: es w)
  case Nil
  then show ?case by (simp add: io_run)
next
  case (Cons ps "table")
  obtain e es1 where es: "es = e # es1" using Cons.prems(2) by (cases es) auto
  have att: "attached ps" using Cons.prems(1) by simp
  obtain ps' w1 where ps: "fiveman_process_state_child_process_status k ps w = (Ret ps', w1)" "attached ps'"
    using child_status_run [OF att, of k w] by blast
  obtain e' w2 where e': "update_screen_entry k ps' e w1 = (Ret e', w2)"
    using update_screen_entry_run [of k ps' e w1] by blast
  obtain call where call: "trace w2 = trace w @ call" "refreshed k ps e call ps' e'"
    using refresh_Ret [OF ps(1) e'] by blast
  obtain table' es' w3 calls where rest: "status_rows k table es1 w2 = (Ret (table', es'), w3)" "length es' = length es1"
    "length table' = length table" "list_all attached table'" "trace w3 = trace w2 @ concat calls" "length calls = length table"
    "\<forall>i < length table. refreshed k (table ! i) (es1 ! i) (calls ! i) (table' ! i) (es' ! i)"
    using Cons.IH [of es1 w2] Cons.prems es by auto
  have "\<forall>i < Suc (length table). refreshed k ((ps # table) ! i) (es ! i) ((call # calls) ! i) ((ps' # table') ! i) ((e' # es') ! i)"
    using call(2) rest(7) es by (auto simp: nth_Cons split: nat.split)
  with ps e' call(1) rest es show ?case
    by (intro exI [of _ "ps' # table'"] exI [of _ "e' # es'"] exI [of _ w3] exI [of _ "call # calls"]) (simp add: io_run)
qed

text \<open>An operation on an entry whose calls are known, walked over the table.\<close>

locale accounted_operation =
  fixes f :: "fiveman_process_state \<Rightarrow> fiveman_process_state eff"
    and R :: "fiveman_process_state \<Rightarrow> event list \<Rightarrow> fiveman_process_state \<Rightarrow> bool"
  assumes account: "f ps w = (Ret ps', w') \<Longrightarrow> \<exists>es. trace w' = trace w @ es \<and> R ps es ps'"
begin

lemma walk_account:
  "walk f table w = (Ret table', w') \<Longrightarrow> \<exists>calls. trace w' = trace w @ concat calls \<and> length calls = length table
     \<and> length table' = length table \<and> (\<forall>i < length table. R (table ! i) (calls ! i) (table' ! i))"
proof (induction "table" arbitrary: table' w)
  case (Cons ps "table")
  then obtain ps' w1 rest where r: "f ps w = (Ret ps', w1)" "walk f table w1 = (Ret rest, w')" "table' = ps' # rest"
    by (auto elim!: io_bind_Ret simp: io_run(1))
  obtain es where es: "trace w1 = trace w @ es" "R ps es ps'" using account [OF r(1)] by blast
  obtain calls where calls: "trace w' = trace w1 @ concat calls" "length calls = length table" "length rest = length table"
    "\<forall>i < length table. R (table ! i) (calls ! i) (rest ! i)" using Cons.IH [OF r(2)] by blast
  have "\<forall>i < Suc (length table). R ((ps # table) ! i) ((es # calls) ! i) ((ps' # rest) ! i)"
    using es(2) calls(4) by (auto simp: nth_Cons split: nat.split)
  with es calls r(3) show ?case by (intro exI [of _ "es # calls"]) simp
qed (simp add: io_run)

end

lemma reap_retry:
  "retry s (io_bind (sys_waitpid k p) (\<lambda>r. io_return (r > 0))) n w = (Ret (), w') \<Longrightarrow>
   \<exists>dead none. trace w' = trace w @ map (Waitpid p) (dead @ [none]) \<and> list_all (\<lambda>r. 0 < r) dead \<and> none \<le> 0"
proof (induction n arbitrary: w)
  case (Suc n)
  let ?again = "io_bind (sys_waitpid k p) (\<lambda>r. io_return (r > 0))"
  define r where "r = k_waitpid k (trace w) p"
  let ?w1 = "w\<lparr>trace := trace w @ [Waitpid p r]\<rparr>"
  have "?again w = (Ret (0 < r), ?w1)" by (simp add: io_simps r_def)
  then have "io_bind ?again f w = f (0 < r) ?w1" for f :: "bool \<Rightarrow> unit eff" by (simp add: io_bind_def)
  with Suc.prems have run: "(if 0 < r then retry s ?again n else io_return ()) ?w1 = (Ret (), w')" by simp
  show ?case
  proof (cases "0 < r")
    case True
    with run have "retry s ?again n ?w1 = (Ret (), w')" by simp
    from Suc.IH [OF this] obtain dead none where
      "trace w' = trace ?w1 @ map (Waitpid p) (dead @ [none])" "list_all (\<lambda>r. 0 < r) dead" "none \<le> 0" by blast
    with True show ?thesis by (intro exI [of _ "r # dead"] exI [of _ none]) simp
  next
    case False
    with run show ?thesis by (intro exI [of _ "[]"] exI [of _ r]) (auto simp: io_run)
  qed
qed (simp add: io_run)

lemma reap_Ret:
  assumes "fiveman_process_state_reap_zombie_processes k ps w = (Ret ps', w')"
  shows "\<exists>es. trace w' = trace w @ es \<and> reaped ps es \<and> ps' = ps"
proof (cases "0 < ps_pid ps")
  case True
  with assms have "retry ''waitpid'' (io_bind (sys_waitpid k (ps_pid ps)) (\<lambda>r. io_return (r > 0))) (k_fuel k) w = (Ret (), w')"
    "ps' = ps"
    unfolding fiveman_process_state_reap_zombie_processes_def by (auto simp: io_run split: prod.splits res.splits)
  with reap_retry [OF this(1)] True show ?thesis unfolding reaped_def by force
next
  case False
  with assms show ?thesis by (simp add: fiveman_process_state_reap_zombie_processes_def io_run reaped_def)
qed

interpretation reap_account: accounted_operation "fiveman_process_state_reap_zombie_processes k"
    "\<lambda>ps es ps'. reaped ps es \<and> ps' = ps" for k
  by unfold_locales (rule reap_Ret)

interpretation converge_account: accounted_operation "\<lambda>ps. fiveman_process_state_converge k ps d" "converges k d" for k d
  by unfold_locales (rule converge_exact)

text \<open>The same process with the intent the user wishes.\<close>

definition as_wished :: "fiveman_process_state \<Rightarrow> fiveman_process_state" where
  "as_wished ps = ps\<lparr>ps_intent := (ps_intent ps)\<lparr>pi_intent := pi_intent (ps_desired_intent ps)\<rparr>\<rparr>"

lemma reflect_wished: "fiveman_process_state_reflect_desired_intent = as_wished"
  by (simp add: fun_eq_iff fiveman_process_state_reflect_desired_intent_def as_wished_def)

lemma with_lock_return: "with_lock (io_return x) w = (Ret x, w\<lparr>trace := trace w @ [Mutex_lock, Mutex_unlock]\<rparr>)"
  by (simp add: with_lock_def io_simps)

section \<open>Properties\<close>

text \<open>The screen arrays must be as long as the table. Creating the thread with room for fewer entries than
  the table has writes past the end of the first array; with enough room the arrays are initialised,
  row \<open>i\<close> for entry \<open>i\<close>, and creation succeeds if the four pthread calls do.\<close>

theorem status_thread_create_bounds:
  "(num < length table \<longrightarrow> (\<exists>w'. fiveman_status_thread_create k table num directory w
      = (Fault (OutOfBounds ''draw_entries''), w')))
   \<and> (length table \<le> num \<and> (\<forall>h. k_pthread k h = 0) \<longrightarrow>
      (\<exists>th w'. fiveman_status_thread_create k table num directory w = (Ret th, w')
        \<and> th_table th = table \<and> th_num_entries th = num \<and> \<not> th_exit th \<and> th_directory th = directory
        \<and> length (th_cur_entries th) = num \<and> length (th_prev_entries th) = num
        \<and> (\<forall>i < length table. shows_process i (table ! i) (th_cur_entries th ! i))))"
proof (intro conjI impI)
  assume "num < length table"
  then obtain w' where "initialize_entries k num 0 table w = (Fault (OutOfBounds ''draw_entries''), w')"
    using initialize_entries_overflow [of num 0 "table" k w] by auto
  then show "\<exists>w'. fiveman_status_thread_create k table num directory w = (Fault (OutOfBounds ''draw_entries''), w')"
    by (simp add: fiveman_status_thread_create_def io_run)
next
  assume a: "length table \<le> num \<and> (\<forall>h. k_pthread k h = 0)"
  then obtain curs prevs w1 where "initialize_entries k num 0 table w = (Ret (curs, prevs), w1)"
    "length curs = num" "length prevs = num" "\<forall>i < length table. shows_process i (table ! i) (curs ! i)"
    using initialize_entries_ok [of 0 "table" num k w] by auto
  with a show "\<exists>th w'. fiveman_status_thread_create k table num directory w = (Ret th, w')
        \<and> th_table th = table \<and> th_num_entries th = num \<and> \<not> th_exit th \<and> th_directory th = directory
        \<and> length (th_cur_entries th) = num \<and> length (th_prev_entries th) = num
        \<and> (\<forall>i < length table. shows_process i (table ! i) (th_cur_entries th ! i))"
    by (auto simp: fiveman_status_thread_create_def sys_pthread_def sys_call_def io_run)
qed

theorem status_thread_create_bounds_witness:
  "(\<exists>w'. fiveman_status_thread_create quiet_kernel [example_state] 0 ''/app'' start_world
      = (Fault (OutOfBounds ''draw_entries''), w'))
   \<and> (\<exists>th w'. fiveman_status_thread_create quiet_kernel [example_state] 1 ''/app'' start_world = (Ret th, w'))"
  using status_thread_create_bounds [of 0 "[example_state]" quiet_kernel "''/app''" start_world]
    status_thread_create_bounds [of 1 "[example_state]" quiet_kernel "''/app''" start_world]
  by (auto simp: quiet_kernel_def)

text \<open>C9: A cycle supervises every entry and publishes the result. For a table with the sampling invariant and a row for every
  entry, all calls of a cycle that returns are these, in this order: the lock is taken and released; every entry in turn is
  reaped; every entry in turn, with its intent set to the user's wish, is converged; every entry in turn is probed, sampled
  if it answers, and its row refreshed; the lock is taken and released; and unless the thread was told to stop, it sleeps a
  second. The table and rows it leaves are exactly what these steps made, both are published, the sampling invariant
  holds again, and the thread stops exactly when it was told to.\<close>

theorem cycle_supervises_and_publishes:
  assumes "update_cycle k th cur w = (Ret (stop, th', cur'), w')"
    and "list_all attached (th_table th)"
    and "length (th_table th) \<le> length cur"
  shows "\<exists>reaps convs rows mid.
      trace w' = trace w @ [Mutex_lock, Mutex_unlock] @ concat reaps @ concat convs @ concat rows
        @ [Mutex_lock, Mutex_unlock] @ (if stop then [] else [Sleep 1])
    \<and> length reaps = length (th_table th) \<and> length convs = length (th_table th) \<and> length rows = length (th_table th)
    \<and> (\<forall>i < length (th_table th).
        reaped (th_table th ! i) (reaps ! i)
      \<and> converges k (th_directory th) (as_wished (th_table th ! i)) (convs ! i) (mid ! i)
      \<and> refreshed k (mid ! i) (cur ! i) (rows ! i) (th_table th' ! i) (cur' ! i))
    \<and> list_all attached (th_table th') \<and> length (th_table th') = length (th_table th) \<and> length cur' = length cur
    \<and> th' = th\<lparr>th_table := th_table th', th_cur_entries := cur'\<rparr> \<and> stop = th_exit th"
proof -
  let ?T = "th_table th" and ?R = "map as_wished (th_table th)"
  let ?w0 = "w\<lparr>trace := trace w @ [Mutex_lock, Mutex_unlock]\<rparr>"
  have refl: "fiveman_process_state_table_reflect_desired_intent ?T = ?R"
    by (simp add: fiveman_process_state_table_reflect_desired_intent_def reflect_wished)
  obtain t1 w1 t2 w2 t3 cur3 w3 where
    r1: "fiveman_process_state_table_reap_zombie_processes k ?R ?w0 = (Ret t1, w1)" and
    r2: "fiveman_process_state_table_converge k t1 (th_directory th) w1 = (Ret t2, w2)" and
    r3: "status_rows k t2 cur w2 = (Ret (t3, cur3), w3)" and
    r5: "(if th_exit th then io_return (True, th\<lparr>th_table := t3, th_cur_entries := cur3\<rparr>, cur3)
          else io_then (sys_note (Sleep 1)) (io_return (False, th\<lparr>th_table := t3, th_cur_entries := cur3\<rparr>, cur3)))
        (w3\<lparr>trace := trace w3 @ [Mutex_lock, Mutex_unlock]\<rparr>) = (Ret (stop, th', cur'), w')"
    using assms(1) unfolding update_cycle_def refl
    by (elim io_bind_Ret) (auto simp: with_lock_return split: prod.splits elim!: io_bind_Ret)
  have fin: "stop = th_exit th" "th' = th\<lparr>th_table := t3, th_cur_entries := cur3\<rparr>" "cur' = cur3"
    "trace w' = trace w3 @ [Mutex_lock, Mutex_unlock] @ (if stop then [] else [Sleep 1])"
    using r5 by (auto simp: io_simps split: if_splits)
  obtain reaps where reaps: "trace w1 = trace ?w0 @ concat reaps" "length reaps = length ?T" "length t1 = length ?T"
    "\<forall>i < length ?T. reaped (?R ! i) (reaps ! i) \<and> t1 ! i = ?R ! i"
    using reap_account.walk_account [OF r1 [unfolded fiveman_process_state_table_reap_zombie_processes_def]] by auto
  have t1: "t1 = ?R" using reaps(3,4) by (intro nth_equalityI) auto
  obtain convs where convs: "trace w2 = trace w1 @ concat convs" "length convs = length ?T" "length t2 = length ?T"
    "\<forall>i < length ?T. converges k (th_directory th) (?R ! i) (convs ! i) (t2 ! i)"
    using converge_account.walk_account [OF r2 [unfolded fiveman_process_state_table_converge_def t1]] by auto
  have "list_all attached ?R" using assms(2) by (simp add: list_all_iff as_wished_def)
  then have att: "list_all attached t2"
    using converging.walk_invariant [OF r2 [unfolded fiveman_process_state_table_converge_def t1], of attached]
    by (simp add: same_process_def)
  obtain table' es' w'' rows where st: "status_rows k t2 cur w2 = (Ret (table', es'), w'')" "length es' = length cur"
    "length table' = length t2" "list_all attached table'" "trace w'' = trace w2 @ concat rows" "length rows = length t2"
    "\<forall>i < length t2. refreshed k (t2 ! i) (cur ! i) (rows ! i) (table' ! i) (es' ! i)"
    using status_rows_run [OF att, of cur k w2] assms(3) convs(3) by auto
  have eq: "t3 = table'" "cur3 = es'" "w3 = w''" using st(1) r3 by simp_all
  have "reaped (?T ! i) es = reaped (?R ! i) es" if "i < length ?T" for i es
    using that by (simp add: reaped_def as_wished_def)
  then show ?thesis using fin reaps convs st eq
    by (intro exI [of _ reaps] exI [of _ convs] exI [of _ rows] exI [of _ t2]) simp
qed

theorem cycle_supervises_and_publishes_witness:
  "\<exists>th' cur' w'. update_cycle quiet_kernel (example_thread [example_state\<lparr>ps_desired_intent :=
       \<lparr> pi_intent = INTENT_STOP, pi_data = 0 \<rparr>\<rparr>]) [zero_entry\<lparr>en_state := Some 0\<rparr>] start_world
     = (Ret (False, th', cur'), w') \<and> list_all attached (th_table th') \<and> th_cur_entries th' = cur'"
proof -
  let ?th = "example_thread [example_state\<lparr>ps_desired_intent := \<lparr> pi_intent = INTENT_STOP, pi_data = 0 \<rparr>\<rparr>]"
  obtain th' cur' w' where run: "update_cycle quiet_kernel ?th [zero_entry\<lparr>en_state := Some 0\<rparr>] start_world
      = (Ret (False, th', cur'), w')"
    by (simp add: update_cycle_def with_lock_def fiveman_process_state_table_reflect_desired_intent_def
        fiveman_process_state_table_reap_zombie_processes_def fiveman_process_state_reap_zombie_processes_def
        fiveman_process_state_table_converge_def fiveman_process_state_converge_def stat_output_def
        fiveman_process_state_converge_stop_def fiveman_process_state_child_process_status_def
        fiveman_process_state_reflect_desired_intent_def update_screen_entry_def
        fiveman_process_state_current_activity_def fiveman_process_state_lifetime_def
        example_thread_def example_state_def quiet_kernel_def io_simps Let_def)
  have "list_all attached (th_table ?th)" "length (th_table ?th) \<le> length [zero_entry\<lparr>en_state := Some 0\<rparr>]"
    by (simp_all add: example_thread_def attached_def example_state_def)
  from cycle_supervises_and_publishes [OF run this] have att: "list_all attached (th_table th')"
    and eq: "th' = ?th\<lparr>th_table := th_table th', th_cur_entries := cur'\<rparr>" by blast+
  have "th_cur_entries th' = th_cur_entries (?th\<lparr>th_table := th_table th', th_cur_entries := cur'\<rparr>)"
    using eq by (rule arg_cong)
  then have "th_cur_entries th' = cur'" by simp
  with att show ?thesis using run by blast
qed

end
