(* ===== verification/Fiveman_System.thy ===== *)
theory Fiveman_System
  imports Fiveman_Status_Thread
begin

text \<open>
  The two threads of a running fiveman, and the signals that interrupt them, as a step relation. The
  status thread of \<open>src/fiveman_status_thread.c\<close> and the loop of \<open>draw_screen\<close> are cut where they lock,
  unlock or move on to the next entry of the table; any actor may take the next step. A step is the
  function of the sources that runs there, so a call that touches one entry is atomic: interleavings
  inside \<open>fiveman_process_state_converge\<close> or inside the drawing of one frame are not distinguished.
\<close>

section \<open>States\<close>

text \<open>Where the status thread is: before its arrays are initialised, in \<open>reflect_desired_intent\<close>, before
  entry \<open>i\<close> of one of the three walks, before the copy to \<open>cur_entries\<close>, in \<open>sleep\<close>, or at its end.\<close>

datatype thread_pc =
    Initializing | Reflecting | Reaping nat | Converging nat | Sampling nat | Publishing | Sleeping | Finished

text \<open>Where the loop of \<open>draw_screen\<close> is: before a frame, in \<open>getch\<close>, at the \<open>switch\<close> with the key, at
  the check of the shutdown, at the two tests that end an iteration, or after the loop.\<close>

datatype ui_pc = Drawing | Waiting | Handling int | Checking | Deciding | Left

record system =
  sy_thread :: fiveman_status_thread
  sy_pc :: thread_pc
  sy_rows :: "fiveman_ncurses_screen_entry list"   \<comment> \<open>\<open>cur_draw_entries\<close> of the status thread\<close>
  sy_ui :: ui
  sy_ui_pc :: ui_pc

text \<open>The arguments of \<open>draw_screen\<close> that never change.\<close>

record session =
  se_procfile :: string
  se_directory :: string
  se_total_states :: nat
  se_fork :: fiveman_pager_fork

abbreviation sy_table :: "system \<Rightarrow> process_table" where
  "sy_table s \<equiv> th_table (sy_thread s)"

definition set_table :: "process_table \<Rightarrow> system \<Rightarrow> system" where
  "set_table t s = s\<lparr>sy_thread := (sy_thread s)\<lparr>th_table := t\<rparr>\<rparr>"

section \<open>Steps\<close>

text \<open>The body of a walk for entry \<open>i\<close>.\<close>

definition update_entry :: "(fiveman_process_state \<Rightarrow> fiveman_process_state eff) \<Rightarrow> nat \<Rightarrow> system \<Rightarrow> system eff" where
  "update_entry f i s =
     io_bind (f (sy_table s ! i)) (\<lambda>ps. io_return (set_table ((sy_table s)[i := ps]) s))"

definition sample_entry :: "kernel \<Rightarrow> nat \<Rightarrow> system \<Rightarrow> system eff" where
  "sample_entry k i s =
     io_bind (fiveman_process_state_child_process_status k (sy_table s ! i)) (\<lambda>ps.
     if i < length (sy_rows s) then
       io_bind (update_screen_entry k ps (sy_rows s ! i)) (\<lambda>e.
       io_return ((set_table ((sy_table s)[i := ps]) s)\<lparr>sy_rows := (sy_rows s)[i := e]\<rparr>))
     else io_fault (OutOfBounds ''cur_draw_entries''))"

definition walk_entries :: "(nat \<Rightarrow> system \<Rightarrow> system eff) \<Rightarrow> (nat \<Rightarrow> thread_pc) \<Rightarrow> thread_pc \<Rightarrow> nat \<Rightarrow> system \<Rightarrow> system eff" where
  "walk_entries body here fin i s =
     (if i < length (sy_table s)
      then io_bind (body i s) (\<lambda>s. io_return (s\<lparr>sy_pc := here (Suc i)\<rparr>))
      else io_return (s\<lparr>sy_pc := fin\<rparr>))"

definition thread_step :: "kernel \<Rightarrow> system \<Rightarrow> system eff" where
  "thread_step k s =
     (case sy_pc s of
        Initializing \<Rightarrow>
          io_bind (initialize_entries k (th_num_entries (sy_thread s)) 0 (sy_table s)) (\<lambda>(cur, prev).
          io_return (s\<lparr>sy_rows := cur, sy_pc := Reflecting\<rparr>))
      | Reflecting \<Rightarrow>
          io_bind (with_lock (io_return (fiveman_process_state_table_reflect_desired_intent (sy_table s)))) (\<lambda>t.
          io_return ((set_table t s)\<lparr>sy_pc := Reaping 0\<rparr>))
      | Reaping i \<Rightarrow>
          walk_entries (update_entry (fiveman_process_state_reap_zombie_processes k)) Reaping (Converging 0) i s
      | Converging i \<Rightarrow>
          walk_entries (update_entry (\<lambda>ps. fiveman_process_state_converge k ps (th_directory (sy_thread s))))
            Converging (Sampling 0) i s
      | Sampling i \<Rightarrow> walk_entries (sample_entry k) Sampling Publishing i s
      | Publishing \<Rightarrow>
          io_bind (with_lock (io_return ((sy_thread s)\<lparr>th_cur_entries := sy_rows s\<rparr>, th_exit (sy_thread s)))) (\<lambda>(th, exit).
          io_return (s\<lparr>sy_thread := th, sy_pc := (if exit then Finished else Sleeping)\<rparr>))
      | Sleeping \<Rightarrow> io_then (sys_note (Sleep 1)) (io_return (s\<lparr>sy_pc := Reflecting\<rparr>))
      | Finished \<Rightarrow> io_return s)"

definition ui_step :: "kernel \<Rightarrow> session \<Rightarrow> system \<Rightarrow> system eff" where
  "ui_step k se s =
     (case sy_ui_pc s of
        Drawing \<Rightarrow>
          io_bind (draw_frame k (se_procfile se) (se_directory se) (sy_thread s) (sy_ui s)) (\<lambda>u.
          io_return (s\<lparr>sy_ui := u, sy_ui_pc := Waiting\<rparr>))
      | Waiting \<Rightarrow> io_bind (sys_getch k) (\<lambda>c. io_return (s\<lparr>sy_ui_pc := Handling c\<rparr>))
      | Handling c \<Rightarrow>
          io_bind (handle_key k (se_fork se) (se_total_states se) c (sy_thread s) (sy_ui s)) (\<lambda>(th, u).
          io_return (s\<lparr>sy_thread := th, sy_ui := u, sy_ui_pc := Checking\<rparr>))
      | Checking \<Rightarrow>
          io_then (check_termination k (sy_thread s) (sy_ui s)) (io_return (s\<lparr>sy_ui_pc := Deciding\<rparr>))
      | Deciding \<Rightarrow>
          io_bind (io_get exit_fiveman_immediately) (\<lambda>immediately.
          if immediately then io_return (s\<lparr>sy_ui_pc := Left\<rparr>)
          else io_bind (request_exit k (sy_thread s) (sy_ui s)) (\<lambda>(th, u).
            io_return (s\<lparr>sy_thread := th, sy_ui := u, sy_ui_pc := Drawing\<rparr>)))
      | Left \<Rightarrow> io_return s)"

text \<open>The signal handlers run on top of either thread: SIGCHLD and SIGINT.\<close>

datatype actor = Status_thread | Screen_loop | Signal_chld | Signal_int

definition system_step :: "kernel \<Rightarrow> session \<Rightarrow> actor \<Rightarrow> system \<Rightarrow> system eff" where
  "system_step k se a s =
     (case a of
        Status_thread \<Rightarrow> thread_step k s
      | Screen_loop \<Rightarrow> ui_step k se s
      | Signal_chld \<Rightarrow> io_bind (handle_sigchld k (sy_table s)) (\<lambda>t. io_return (set_table t s))
      | Signal_int \<Rightarrow> io_then handle_sigint (io_return s))"

fun run_system :: "kernel \<Rightarrow> session \<Rightarrow> actor list \<Rightarrow> system \<Rightarrow> system eff" where
  "run_system k se [] s = io_return s"
| "run_system k se (a # as) s = io_bind (system_step k se a s) (run_system k se as)"

text \<open>The steps of a schedule until \<open>ended\<close>; a schedule that stops before is a program that never gets there.\<close>

fun run_until :: "kernel \<Rightarrow> session \<Rightarrow> (system \<Rightarrow> bool) \<Rightarrow> string \<Rightarrow> actor list \<Rightarrow> system \<Rightarrow> system eff" where
  "run_until k se ended what [] s = (if ended s then io_return s else io_fault (NeverReturns what))"
| "run_until k se ended what (a # as) s =
     (if ended s then io_return s else io_bind (system_step k se a s) (run_until k se ended what as))"

abbreviation screen_left :: "system \<Rightarrow> bool" where
  "screen_left s \<equiv> sy_ui_pc s = Left"

abbreviation thread_ended :: "system \<Rightarrow> bool" where
  "thread_ended s \<equiv> sy_pc s = Finished"

inductive step :: "kernel \<Rightarrow> session \<Rightarrow> system \<times> world \<Rightarrow> actor \<Rightarrow> system \<times> world \<Rightarrow> bool" for k se where
  "system_step k se a s w = (Ret s', w') \<Longrightarrow> step k se (s, w) a (s', w')"

inductive_cases step_elim [elim!]: "step k se (s, w) a (s', w')"

inductive reachable :: "kernel \<Rightarrow> session \<Rightarrow> system \<times> world \<Rightarrow> system \<times> world \<Rightarrow> bool" for k se c where
  start: "reachable k se c c"
| step: "reachable k se c d \<Longrightarrow> step k se d a e \<Longrightarrow> reachable k se c e"

lemma reachable_run:
  "run_system k se as s w = (Ret s', w') \<Longrightarrow> reachable k se c (s, w) \<Longrightarrow> reachable k se c (s', w')"
proof (induction as arbitrary: s w)
  case Nil
  then show ?case by (simp add: io_run)
next
  case (Cons a as)
  then obtain s1 w1 where one: "system_step k se a s w = (Ret s1, w1)" "run_system k se as s1 w1 = (Ret s', w')"
    by (auto elim!: io_bind_Ret)
  then have "reachable k se c (s1, w1)" using Cons.prems(2) by (auto intro: reachable.step step.intros)
  with one(2) show ?case by (rule Cons.IH)
qed

section \<open>Alone, the status thread runs its cycles\<close>

fun run_thread :: "kernel \<Rightarrow> nat \<Rightarrow> system \<Rightarrow> system eff" where
  "run_thread k 0 s = io_return s"
| "run_thread k (Suc n) s = io_bind (thread_step k s) (run_thread k n)"

declare bind_return_left [simp] bind_return_right [simp] bind_fault [simp]

lemma run_thread_zero [simp]: "run_thread k 0 = io_return"
  by (rule ext) simp

lemma run_thread_add: "run_thread k (m + n) s = io_bind (run_thread k m s) (run_thread k n)"
proof (induction m arbitrary: s)
  case (Suc m)
  have "run_thread k (m + n) = (\<lambda>s. io_bind (run_thread k m s) (run_thread k n))" by (rule ext) (rule Suc.IH)
  then show ?case by (simp add: io_bind_assoc)
qed simp

lemma set_table_simps [simp]:
  "sy_table (set_table t s) = t" "sy_pc (set_table t s) = sy_pc s" "sy_rows (set_table t s) = sy_rows s"
  "sy_ui (set_table t s) = sy_ui s" "sy_ui_pc (set_table t s) = sy_ui_pc s"
  "sy_thread (set_table t s) = (sy_thread s)\<lparr>th_table := t\<rparr>"
  "set_table t (set_table t' s) = set_table t s" "set_table (sy_table s) s = s"
  "set_table t (s\<lparr>sy_pc := p\<rparr>) = (set_table t s)\<lparr>sy_pc := p\<rparr>"
  "set_table t (s\<lparr>sy_rows := r\<rparr>) = (set_table t s)\<lparr>sy_rows := r\<rparr>"
  by (simp_all add: set_table_def)

text \<open>A walk that updates the entries one by one is the walk of \<open>fiveman_process_state_table.c\<close>.\<close>

lemma run_walk:
  assumes step: "\<And>i s. P s \<Longrightarrow> sy_pc s = here i \<Longrightarrow> thread_step k s = walk_entries (update_entry f) here fin i s"
    and P: "\<And>s t p. P s \<Longrightarrow> P ((set_table t s)\<lparr>sy_pc := p\<rparr>)"
  shows "P s \<Longrightarrow> sy_pc s = here i \<Longrightarrow> i \<le> length (sy_table s) \<Longrightarrow>
    run_thread k (Suc (length (sy_table s) - i)) s =
      io_bind (walk f (drop i (sy_table s))) (\<lambda>ps. io_return ((set_table (take i (sy_table s) @ ps) s)\<lparr>sy_pc := fin\<rparr>))"
proof (induction "length (sy_table s) - i" arbitrary: i s)
  case 0
  then show ?case by (simp add: step walk_entries_def)
next
  case (Suc n)
  then have i: "i < length (sy_table s)" by simp
  let ?s = "\<lambda>p. (set_table ((sy_table s)[i := p]) s)\<lparr>sy_pc := here (Suc i)\<rparr>"
  have IH: "run_thread k (Suc n) (?s p) =
      io_bind (walk f (drop (Suc i) (sy_table s)))
        (\<lambda>ps. io_return ((set_table (take i (sy_table s) @ p # ps) s)\<lparr>sy_pc := fin\<rparr>))" for p
  proof -
    have "take (Suc i) ((sy_table s)[i := p]) = take i (sy_table s) @ [p]"
      using i by (simp add: take_Suc_conv_app_nth)
    moreover have "Suc n = Suc (length (sy_table (?s p)) - Suc i)" using Suc.hyps(2) i by simp
    ultimately show ?thesis
      using Suc.hyps(1) [of "?s p" "Suc i"] Suc.hyps(2) P [OF Suc.prems(1)] i by simp
  qed
  have "drop i (sy_table s) = sy_table s ! i # drop (Suc i) (sy_table s)" using i by (simp add: Cons_nth_drop_Suc)
  moreover have "run_thread k (Suc (length (sy_table s) - i)) s
      = io_bind (f (sy_table s ! i)) (\<lambda>p. run_thread k (Suc n) (?s p))"
    using Suc.hyps(2) [symmetric] i step [OF Suc.prems(1,2)]
    by (simp add: walk_entries_def update_entry_def io_bind_assoc del: run_thread.simps(2))
      (simp add: io_bind_assoc walk_entries_def update_entry_def)
  ultimately show ?case by (simp add: IH io_bind_assoc del: run_thread.simps)
qed

text \<open>The same for the walk that also refreshes the rows.\<close>

lemma run_sampling:
  "sy_pc s = Sampling i \<Longrightarrow> i \<le> length (sy_table s) \<Longrightarrow>
    run_thread k (Suc (length (sy_table s) - i)) s =
      io_bind (status_rows k (drop i (sy_table s)) (drop i (sy_rows s))) (\<lambda>(ps, es).
      io_return ((set_table (take i (sy_table s) @ ps) s)\<lparr>sy_rows := take i (sy_rows s) @ es, sy_pc := Publishing\<rparr>))"
proof (induction "length (sy_table s) - i" arbitrary: i s)
  case 0
  then show ?case by (simp add: thread_step_def walk_entries_def)
next
  case (Suc n)
  then have i: "i < length (sy_table s)" by simp
  let ?s = "\<lambda>p e. (set_table ((sy_table s)[i := p]) s)\<lparr>sy_rows := (sy_rows s)[i := e], sy_pc := Sampling (Suc i)\<rparr>"
  have drop: "drop i (sy_table s) = sy_table s ! i # drop (Suc i) (sy_table s)" using i by (simp add: Cons_nth_drop_Suc)
  have "Suc (length (sy_table s) - i) = Suc (Suc n)" using Suc.hyps(2) by simp
  then have run: "run_thread k (Suc (length (sy_table s) - i)) s
      = io_bind (walk_entries (sample_entry k) Sampling Publishing i s) (run_thread k (Suc n))"
    using Suc.prems by (simp add: thread_step_def)
  show ?case
  proof (cases "i < length (sy_rows s)")
    case True
    have IH: "run_thread k (Suc n) (?s p e) =
        io_bind (status_rows k (drop (Suc i) (sy_table s)) (drop (Suc i) (sy_rows s))) (\<lambda>(ps, es).
        io_return ((set_table (take i (sy_table s) @ p # ps) s)\<lparr>sy_rows := take i (sy_rows s) @ e # es, sy_pc := Publishing\<rparr>))" for p e
    proof -
      have "take (Suc i) ((sy_table s)[i := p]) = take i (sy_table s) @ [p]"
        using i by (simp add: take_Suc_conv_app_nth)
      moreover have "take (Suc i) ((sy_rows s)[i := e]) = take i (sy_rows s) @ [e]"
        using True by (simp add: take_Suc_conv_app_nth)
      moreover have "Suc n = Suc (length (sy_table (?s p e)) - Suc i)" using Suc.hyps(2) i by simp
      ultimately show ?thesis
        using Suc.hyps(1) [of "?s p e" "Suc i"] Suc.hyps(2) i by simp
    qed
    have "drop i (sy_rows s) = sy_rows s ! i # drop (Suc i) (sy_rows s)" using True by (simp add: Cons_nth_drop_Suc)
    with True i show ?thesis unfolding run drop
      by (simp add: walk_entries_def sample_entry_def io_bind_assoc IH case_prod_beta' del: run_thread.simps)
  next
    case False
    with i show ?thesis unfolding run drop
      by (simp add: walk_entries_def sample_entry_def io_bind_assoc del: run_thread.simps)
  qed
qed

lemma bind_cong_Ret: "(\<And>w x w'. m w = (Ret x, w') \<Longrightarrow> f x = g x) \<Longrightarrow> io_bind m f = io_bind m g"
  by (rule ext) (auto simp: io_run split: prod.split res.split)

lemma table_walk_length: "walk f ps w = (Ret ps', w') \<Longrightarrow> length ps' = length ps"
  by (induction ps arbitrary: ps' w) (auto simp: io_run(1) elim!: io_bind_Ret)

lemma cycle_run:
  assumes "sy_pc s = Reflecting"
  shows "run_thread k (3 * length (sy_table s) + 6) s =
    io_bind (update_cycle k (sy_thread s) (sy_rows s)) (\<lambda>(stop, th, rows).
    io_return (s\<lparr>sy_thread := th, sy_rows := rows, sy_pc := (if stop then Finished else Reflecting)\<rparr>))"
proof -
  let ?n = "length (sy_table s)"
  let ?R = "fiveman_process_state_table_reflect_desired_intent (sy_table s)"
  let ?reap = "fiveman_process_state_reap_zombie_processes k"
  let ?conv = "\<lambda>ps. fiveman_process_state_converge k ps (th_directory (sy_thread s))"
  define after where "after t p = (set_table t s)\<lparr>sy_pc := p\<rparr>" for t p
  have len: "length ?R = ?n" by (simp add: fiveman_process_state_table_reflect_desired_intent_def)
  have sub: "3 * ?n + 6 = 1 + (Suc ?n + (Suc ?n + (Suc ?n + 2)))" by simp
  have r1: "run_thread k 1 s = io_bind (with_lock (io_return ?R)) (\<lambda>t. io_return (after t (Reaping 0)))"
    using assms by (simp add: thread_step_def after_def)
  have r2: "run_thread k (Suc ?n) (after t (Reaping 0)) = io_bind (walk ?reap t) (\<lambda>t. io_return (after t (Converging 0)))"
    if "length t = ?n" for t
    using run_walk [where P = "\<lambda>_. True" and here = Reaping and k = k and f = ?reap and fin = "Converging 0"
        and s = "after t (Reaping 0)" and i = 0] that
    by (simp add: thread_step_def after_def del: run_thread.simps)
  have r3: "run_thread k (Suc ?n) (after t (Converging 0)) = io_bind (walk ?conv t) (\<lambda>t. io_return (after t (Sampling 0)))"
    if "length t = ?n" for t
    using run_walk [where P = "\<lambda>s'. th_directory (sy_thread s') = th_directory (sy_thread s)" and here = Converging
        and k = k and f = ?conv and fin = "Sampling 0" and s = "after t (Converging 0)" and i = 0] that
    by (simp add: thread_step_def after_def del: run_thread.simps)
  have r4: "run_thread k (Suc ?n) (after t (Sampling 0)) = io_bind (status_rows k t (sy_rows s))
      (\<lambda>(t, rows). io_return ((set_table t s)\<lparr>sy_rows := rows, sy_pc := Publishing\<rparr>))" if "length t = ?n" for t
    using run_sampling [of "after t (Sampling 0)" 0 k] that
    by (simp add: after_def case_prod_beta' del: run_thread.simps)
  have r5: "run_thread k 2 ((set_table t s)\<lparr>sy_rows := rows, sy_pc := Publishing\<rparr>) =
      io_bind (with_lock (io_return ((sy_thread s)\<lparr>th_table := t, th_cur_entries := rows\<rparr>, th_exit (sy_thread s)))) (\<lambda>(th, exit).
      io_bind (if exit then io_return (True, th, rows) else io_then (sys_note (Sleep 1)) (io_return (False, th, rows)))
        (\<lambda>(stop, th, rows). io_return (s\<lparr>sy_thread := th, sy_rows := rows, sy_pc := (if stop then Finished else Reflecting)\<rparr>)))" for t rows
    by (rule ext) (simp add: thread_step_def after_def numeral_2_eq_2 with_lock_def io_simps set_table_def)
  define ending where "ending th rows exit =
      io_bind (if exit then io_return (True, th, rows) else io_then (sys_note (Sleep 1)) (io_return (False, th, rows)))
        (\<lambda>(stop, th, rows). io_return (s\<lparr>sy_thread := th, sy_rows := rows, sy_pc := (if stop then Finished else Reflecting)\<rparr>))"
    for th rows exit
  define sampling where "sampling t = io_bind (status_rows k t (sy_rows s)) (\<lambda>(t, rows).
      io_bind (with_lock (io_return ((sy_thread s)\<lparr>th_table := t, th_cur_entries := rows\<rparr>, th_exit (sy_thread s))))
        (\<lambda>(th, exit). ending th rows exit))" for t
  have c4: "run_thread k (Suc ?n + 2) (after t (Sampling 0)) = sampling t" if "length t = ?n" for t
    unfolding run_thread_add r4 [OF that] sampling_def io_bind_assoc case_prod_beta' bind_return_left
    by (simp only: r5 [unfolded case_prod_beta'] ending_def case_prod_beta')
  have c3: "run_thread k (Suc ?n + (Suc ?n + 2)) (after t (Converging 0)) = io_bind (walk ?conv t) sampling"
    if "length t = ?n" for t
    unfolding run_thread_add [of k "Suc ?n" "Suc ?n + 2"] r3 [OF that] io_bind_assoc bind_return_left
    by (rule bind_cong_Ret, rule c4) (auto dest: table_walk_length simp: that)
  have c2: "run_thread k (Suc ?n + (Suc ?n + (Suc ?n + 2))) (after t (Reaping 0))
      = io_bind (walk ?reap t) (\<lambda>t. io_bind (walk ?conv t) sampling)" if "length t = ?n" for t
    unfolding run_thread_add [of k "Suc ?n" "Suc ?n + (Suc ?n + 2)"] r2 [OF that] io_bind_assoc bind_return_left
    by (rule bind_cong_Ret, rule c3) (auto dest: table_walk_length simp: that)
  have "run_thread k (3 * ?n + 6) s
      = io_bind (with_lock (io_return ?R)) (\<lambda>t. io_bind (walk ?reap t) (\<lambda>t. io_bind (walk ?conv t) sampling))"
    unfolding sub run_thread_add [of k 1] r1 io_bind_assoc bind_return_left
    by (rule bind_cong_Ret, rule c2) (auto elim!: with_lock_Ret simp: io_run(1) len)
  then show ?thesis
    unfolding update_cycle_def io_bind_assoc fiveman_process_state_table_reap_zombie_processes_def
      fiveman_process_state_table_converge_def sampling_def ending_def case_prod_beta'
    by (simp add: io_bind_assoc case_prod_beta')
qed

section \<open>Properties\<close>

text \<open>The steps of the status thread are its cycle. Left alone, in \<open>3 n + 6\<close> steps from the head of the
  loop over a table of \<open>n\<close> entries the thread does what the cycle of \<open>fiveman_update_thread_main\<close>
  does as one function: the same calls, the same table, rows and published entries, the same fault if
  one occurs, and it ends or is at the head of the loop again as the exit flag says.\<close>

theorem thread_steps_run_cycle:
  assumes "sy_pc s = Reflecting"
  shows "run_thread k (3 * length (sy_table s) + 6) s =
    io_bind (update_cycle k (sy_thread s) (sy_rows s)) (\<lambda>(stop, th, rows).
    io_return (s\<lparr>sy_thread := th, sy_rows := rows, sy_pc := (if stop then Finished else Reflecting)\<rparr>))"
  using assms by (rule cycle_run)

theorem thread_steps_run_cycle_witness:
  "\<exists>s. sy_pc s = Reflecting \<and> run_thread quiet_kernel 6 s = io_bind (update_cycle quiet_kernel (sy_thread s) (sy_rows s))
     (\<lambda>(stop, th, rows). io_return (s\<lparr>sy_thread := th, sy_rows := rows, sy_pc := (if stop then Finished else Reflecting)\<rparr>))"
proof -
  let ?s = "\<lparr> sy_thread = example_thread [], sy_pc = Reflecting, sy_rows = [], sy_ui = example_ui, sy_ui_pc = Drawing \<rparr>"
  have "sy_pc ?s = Reflecting" by simp
  from thread_steps_run_cycle [OF this, of quiet_kernel] show ?thesis
    by (intro exI [of _ ?s]) (simp add: example_thread_def)
qed

end
