(* ===== verification/Fiveman_Interleaving.thy ===== *)
theory Fiveman_Interleaving
  imports Fiveman_System
begin

text \<open>
  What holds in every interleaving of the two threads and the signals: whom the system signals, which
  facts about the table, the rows and the selection every step keeps, when nothing is launched any
  more, that no step makes or removes a file, and that the status thread ends when it is told to. The lemmas on single functions come from
  the components; here they are lifted to steps and to runs.
\<close>

section \<open>Whom the system signals\<close>

text \<open>The processes launched in a run, the pids a table holds, and the calls that name only pids of a set.\<close>

definition spawned :: "event list \<Rightarrow> int set" where
  "spawned es = {pid. \<exists>q. Spawn q (Inr pid) \<in> set es}"

definition pids :: "process_table \<Rightarrow> int set" where
  "pids table = {ps_pid ps | ps. ps \<in> set table \<and> 0 < ps_pid ps}"

definition targets :: "int set \<Rightarrow> event \<Rightarrow> bool" where
  "targets S e = (case e of Kill p s b \<Rightarrow> 0 < p \<and> p \<in> S | Killpg p s \<Rightarrow> 0 < p \<and> p \<in> S | _ \<Rightarrow> True)"

text \<open>Every signal and probe of a run goes to a pid that was known before: one of \<open>S\<close>, or one launched
  earlier in the run.\<close>

fun own_targets :: "int set \<Rightarrow> event list \<Rightarrow> bool" where
  "own_targets S [] \<longleftrightarrow> True"
| "own_targets S (e # es) \<longleftrightarrow> targets S e \<and> own_targets (S \<union> spawned [e]) es"

lemma spawned_simps [simp]: "spawned [] = {}" "spawned (es @ fs) = spawned es \<union> spawned fs"
  by (auto simp: spawned_def)

lemma spawned_Cons: "spawned (e # es) = spawned [e] \<union> spawned es"
  by (auto simp: spawned_def)

lemma targets_mono: "targets S e \<Longrightarrow> S \<subseteq> S' \<Longrightarrow> targets S' e"
  by (auto simp: targets_def split: event.splits)

lemma targets_simps [simp]:
  "targets S (Kill p n b) \<longleftrightarrow> 0 < p \<and> p \<in> S" "targets S (Killpg p n) \<longleftrightarrow> 0 < p \<and> p \<in> S"
  by (simp_all add: targets_def)

lemma targets_other [simp]: "(\<And>p n b. e \<noteq> Kill p n b) \<Longrightarrow> (\<And>p n. e \<noteq> Killpg p n) \<Longrightarrow> targets S e"
  by (cases e) (auto simp: targets_def)

lemma own_targets_append: "own_targets S (es @ fs) \<longleftrightarrow> own_targets S es \<and> own_targets (S \<union> spawned es) fs"
proof (induction es arbitrary: S)
  case (Cons e es)
  then show ?case by (simp add: spawned_Cons [of e es] Un_assoc)
qed simp

lemma own_targets_all: "list_all (targets S) es \<Longrightarrow> own_targets S es"
proof (induction es arbitrary: S)
  case (Cons e es)
  from Cons.prems have "list_all (targets (S \<union> spawned [e])) es"
    by (auto simp: list_all_iff intro: targets_mono)
  with Cons show ?case by simp
qed simp

text \<open>The positive pids of a table are all known.\<close>

definition knows :: "(int \<Rightarrow> bool) \<Rightarrow> process_table \<Rightarrow> bool" where
  "knows known table \<longleftrightarrow> (\<forall>ps \<in> set table. 0 < ps_pid ps \<longrightarrow> known (ps_pid ps))"

lemma knowsD: "knows known table \<Longrightarrow> ps \<in> set table \<Longrightarrow> 0 < ps_pid ps \<Longrightarrow> known (ps_pid ps)"
  by (simp add: knows_def)

text \<open>
  What a call filter of the whole system needs to know: every call but signals, probes, launches and
  the creation and removal of files passes, and signals and probes pass when their positive pid does. The lemmas of the locale then say
  of each piece of a step that its calls pass; converging, which launches, is left to the user.
\<close>

locale call_filter =
  fixes P :: "event \<Rightarrow> bool" and known :: "int \<Rightarrow> bool"
  assumes others [simp]: "(\<And>p n b. e \<noteq> Kill p n b) \<Longrightarrow> (\<And>p n. e \<noteq> Killpg p n) \<Longrightarrow> (\<And>q r. e \<noteq> Spawn q r) \<Longrightarrow>
      (\<And>t p. e \<noteq> Mktemp t p) \<Longrightarrow> (\<And>f. e \<noteq> Unlink f) \<Longrightarrow> P e"
    and probe: "0 < p \<Longrightarrow> known p \<Longrightarrow> P (Kill p n b)"
    and signal: "0 < p \<Longrightarrow> known p \<Longrightarrow> P (Killpg p n)"
begin

lemma sampling: "sampling_event e \<Longrightarrow> P e"
  by (cases e) (auto simp: sampling_event_def)

lemmas sampling_calls = emits_mono [OF mac.init_calls sampling] emits_mono [OF mac.teardown_calls sampling]
  emits_mono [OF mac.sample_calls sampling]

lemma alive_calls: "(0 < ps_pid ps \<Longrightarrow> known (ps_pid ps)) \<Longrightarrow> emits P (fiveman_process_state_is_alive k ps)"
  unfolding fiveman_process_state_is_alive_def by (auto intro!: emits_intros probe)

lemma signal_calls: "(0 < ps_pid ps \<Longrightarrow> known (ps_pid ps)) \<Longrightarrow> emits P (fiveman_process_state_signal k ps n)"
  unfolding fiveman_process_state_signal_def by (auto intro!: emits_intros signal)

lemma reap_calls: "emits P (fiveman_process_state_reap_zombie_processes k ps)"
  unfolding fiveman_process_state_reap_zombie_processes_def by (auto intro!: emits_intros)

lemma activity_calls: "(0 < ps_pid ps \<Longrightarrow> known (ps_pid ps)) \<Longrightarrow> emits P (fiveman_process_state_current_activity k ps)"
  unfolding fiveman_process_state_current_activity_def by (intro emits_intros alive_calls)

lemma child_status_calls: "(0 < ps_pid ps \<Longrightarrow> known (ps_pid ps)) \<Longrightarrow> emits P (fiveman_process_state_child_process_status k ps)"
  unfolding fiveman_process_state_child_process_status_def fiveman_process_state_sample_process_def
  by (auto intro!: emits_intros alive_calls sampling_calls split: prod.split)

lemma screen_entry_calls: "(0 < ps_pid ps \<Longrightarrow> known (ps_pid ps)) \<Longrightarrow> emits P (update_screen_entry k ps e)"
  unfolding update_screen_entry_def fiveman_process_state_lifetime_def
  by (intro emits_intros activity_calls) simp_all

lemma lock_calls: "emits P m \<Longrightarrow> emits P (with_lock m)"
  unfolding with_lock_def by (intro emits_intros) simp_all

lemma curses_calls: "emits P (curses_all ops)"
  by (induction ops) (auto intro!: emits_intros)

lemma cells_calls: "emits P (draw_cells row col sp cells)"
  by (induction cells arbitrary: col) (auto intro!: emits_intros)

lemma initialize_entries_calls: "knows known table \<Longrightarrow> emits P (initialize_entries k num row table)"
  by (induction "table" arbitrary: row)
    (auto simp: initialize_screen_entry_def knows_def intro!: emits_intros screen_entry_calls split: prod.split)

lemma draw_frame_calls:
  assumes kn: "knows known (th_table th)"
  shows "emits P (draw_frame k pf d th u)"
proof -
  have cells: "emits P (entry_cells k (th_table th) e ext)" for e ext
  proof -
    have row: "emits P (io_bind (table_at (th_table th) i) g)"
      if "\<And>ps. ps \<in> set (th_table th) \<Longrightarrow> emits P (g ps)" for i g
      using that by (auto simp: table_at_def nat_less_iff intro!: emits_intros)
    show ?thesis unfolding entry_cells_def fiveman_process_state_lifetime_str_def fiveman_process_state_lifetime_def
      by (intro emits_intros row activity_calls) (simp_all add: knowsD [OF kn])
  qed
  have "emits P (draw_entries k th u is)" for u "is"
    by (induction "is") (auto simp: draw_screen_entry_def intro!: emits_intros cells lock_calls cells_calls)
  then show ?thesis
    unfolding draw_frame_def sys_getmaxyx_def draw_headers_def draw_ui_text_def Let_def
    by (auto intro!: emits_intros curses_calls cells_calls split: prod.split)
qed

lemma handle_key_calls: "emits P (handle_key k fork n c th u)"
proof -
  have page: "emits P (fiveman_process_state_page_stdout k ps fork)"
    "emits P (fiveman_process_state_page_stderr k ps fork)" for ps
    unfolding fiveman_process_state_page_stdout_def fiveman_process_state_page_stderr_def
      fiveman_pager_fork_page_file_def fiveman_pager_fork_wait_for_confirm_def Let_def
    by (auto intro!: emits_intros)
  have sel: "emits P (update_selected f th u)" if "\<And>ps. emits P (f ps)" for f
    unfolding update_selected_def table_at_def by (auto intro!: emits_intros that)
  show ?thesis
    unfolding handle_key_def suspend_screen_def resume_screen_def Let_def
    by (intro emits_intros sel page lock_calls curses_calls; simp)
qed

lemma check_termination_calls:
  assumes kn: "knows known (th_table th)"
  shows "emits P (check_termination k th u)"
proof -
  have alive: "emits P (num_alive_from k ts n)" if "knows known ts" for ts n
    using that by (induction ts arbitrary: n) (auto simp: knows_def intro!: emits_intros alive_calls)
  have sig: "emits P (fiveman_process_state_table_signal k ts sg)" if "knows known ts" for ts sg
    using that by (induction ts) (auto simp: knows_def intro!: emits_intros signal_calls)
  show ?thesis
    unfolding check_termination_def fiveman_process_state_table_num_alive_def Let_def
    by (intro emits_intros alive sig lock_calls kn) simp_all
qed

lemma ui_step_calls: "knows known (sy_table s) \<Longrightarrow> emits P (ui_step k se s)"
  unfolding ui_step_def
  by (cases "sy_ui_pc s")
    (auto simp: sys_getch_def handle_sigint_def request_exit_def
      intro!: emits_intros draw_frame_calls handle_key_calls check_termination_calls lock_calls split: prod.split)

end

lemma emits_bind_Ret:
  assumes m: "emits P m" and f: "\<And>w x w'. m w = (Ret x, w') \<Longrightarrow> emits P (f x)"
  shows "emits P (io_bind m f)"
  unfolding emits_def
proof (intro allI impI)
  fix w r w' assume run: "io_bind m f w = (r, w')"
  obtain r1 w1 where m1: "m w = (r1, w1)" by (cases "m w")
  then obtain es1 where e1: "trace w1 = trace w @ es1" "list_all P es1" using emitsD [OF m] by blast
  show "\<exists>es. trace w' = trace w @ es \<and> list_all P es"
  proof (cases r1)
    case (Ret x)
    with run m1 have "f x w1 = (r, w')" by (simp add: io_run)
    then obtain es2 where "trace w' = trace w1 @ es2" "list_all P es2"
      using emitsD [OF f] m1 Ret by blast
    with e1 show ?thesis by (intro exI [of _ "es1 @ es2"]) simp
  next
    case (Fault e)
    with run m1 e1 show ?thesis by (auto simp: io_run)
  qed
qed

lemma child_status_Ret:
  assumes "fiveman_process_state_child_process_status k ps w = (Ret ps', w')" "attached ps"
  shows "attached ps' \<and> ps_pid ps' = ps_pid ps \<and> ps_intent ps' = ps_intent ps \<and> same_identity ps ps'"
  using child_status_run [OF assms(2), of k w] assms(1) by auto

context call_filter
begin

lemma thread_step_calls:
  assumes kn: "knows known (sy_table s)" and att: "list_all attached (sy_table s)"
    and conv: "\<And>i. sy_pc s = Converging i \<Longrightarrow> i < length (sy_table s) \<Longrightarrow>
      emits P (fiveman_process_state_converge k (sy_table s ! i) (th_directory (sy_thread s)))"
  shows "emits P (thread_step k s)"
proof -
  have walk: "emits P (walk_entries body here fin i s)"
    if "i < length (sy_table s) \<Longrightarrow> emits P (body i s)" for body here fin i
    unfolding walk_entries_def by (intro emits_intros that)
  have upd: "emits P (update_entry f i s)" if "emits P (f (sy_table s ! i))" for f i
    unfolding update_entry_def by (intro emits_intros that)
  have smp: "emits P (sample_entry k i s)" if i: "i < length (sy_table s)" for i
  proof -
    have pid: "0 < ps_pid (sy_table s ! i) \<Longrightarrow> known (ps_pid (sy_table s ! i))" using knowsD [OF kn] i by simp
    have att_i: "attached (sy_table s ! i)" using att i by (simp add: list_all_length)
    show ?thesis unfolding sample_entry_def
      by (rule emits_bind_Ret)
        (auto intro!: emits_intros child_status_calls screen_entry_calls pid dest: child_status_Ret [OF _ att_i])
  qed
  show ?thesis
    unfolding thread_step_def
    by (cases "sy_pc s")
      (auto intro!: emits_intros walk upd smp reap_calls conv initialize_entries_calls [OF kn] lock_calls split: prod.split)
qed

lemma system_step_calls:
  assumes "knows known (sy_table s)" and "list_all attached (sy_table s)"
    and "\<And>i. sy_pc s = Converging i \<Longrightarrow> i < length (sy_table s) \<Longrightarrow>
      emits P (fiveman_process_state_converge k (sy_table s ! i) (th_directory (sy_thread s)))"
  shows "emits P (system_step k se a s)"
proof -
  have "emits P (handle_sigchld k (sy_table s))"
    unfolding handle_sigchld_def fiveman_process_state_table_reap_zombie_processes_def
    by (auto intro!: emits_intros reap_calls split: table_pointer.split)
  then show ?thesis
    unfolding system_step_def handle_sigint_def
    by (cases a) (auto intro!: emits_intros thread_step_calls [OF assms] ui_step_calls assms(1))
qed

end

text \<open>The filter of the calls that concern the table's own processes.\<close>

interpretation own: call_filter "targets (pids t)" "\<lambda>p. p \<in> pids t" for t
  by unfold_locales simp_all

lemma system_step_targets:
  assumes "list_all attached (sy_table s)"
  shows "emits (targets (pids (sy_table s))) (system_step k se a s)"
proof (rule own.system_step_calls)
  show "knows (\<lambda>p. p \<in> pids (sy_table s)) (sy_table s)" by (auto simp: knows_def pids_def)
  fix i assume i: "i < length (sy_table s)"
  have "own_signal (ps_pid ps) e \<Longrightarrow> ps \<in> set (sy_table s) \<Longrightarrow> targets (pids (sy_table s)) e" for ps e
    by (cases e) (auto simp: pids_def)
  with i show "emits (targets (pids (sy_table s))) (fiveman_process_state_converge k (sy_table s ! i) (th_directory (sy_thread s)))"
    by (auto intro: emits_mono [OF converge_own])
qed (rule assms)

section \<open>The invariant of the running system\<close>

text \<open>What no step changes of an entry: the instruction, the port and the output paths.\<close>

definition same_entry :: "fiveman_process_state \<Rightarrow> fiveman_process_state \<Rightarrow> bool" where
  "same_entry p q \<longleftrightarrow> ps_instruction q = ps_instruction p \<and> ps_desired_port q = ps_desired_port p
     \<and> ps_stdout q = ps_stdout p \<and> ps_stderr q = ps_stderr p"

lemma same_entry_refl [simp]: "same_entry p p"
  by (simp add: same_entry_def)

lemma same_entry_trans: "same_entry p q \<Longrightarrow> same_entry q r \<Longrightarrow> same_entry p r"
  by (simp add: same_entry_def)

lemma identity_entry: "same_identity p q \<Longrightarrow> same_entry p q"
  by (simp add: same_entry_def same_identity_def)

definition table_ok :: "process_table \<Rightarrow> int set \<Rightarrow> process_table \<Rightarrow> bool" where
  "table_ok T S t \<longleftrightarrow> list_all2 same_entry T t \<and> list_all attached t \<and> pids t \<subseteq> S"

definition rows_ok :: "nat \<Rightarrow> fiveman_ncurses_screen_entry list \<Rightarrow> bool" where
  "rows_ok n es \<longleftrightarrow> length es = n \<and> (\<forall>i < n. en_state (es ! i) = Some i)"

definition sys_ok :: "process_table \<Rightarrow> int set \<Rightarrow> system \<Rightarrow> bool" where
  "sys_ok T S s \<longleftrightarrow> table_ok T S (sy_table s) \<and> th_num_entries (sy_thread s) = length T
     \<and> rows_ok (length T) (th_cur_entries (sy_thread s))
     \<and> (sy_pc s \<noteq> Initializing \<longrightarrow> rows_ok (length T) (sy_rows s))
     \<and> 0 \<le> ui_highlighted_row (sy_ui s) \<and> ui_highlighted_row (sy_ui s) < int (length T)"

lemma pids_nth: "i < length t \<Longrightarrow> 0 < ps_pid (t ! i) \<Longrightarrow> ps_pid (t ! i) \<in> pids t"
  by (auto simp: pids_def)

lemma table_ok_nth:
  "table_ok T S t \<Longrightarrow> i < length t \<Longrightarrow> attached (t ! i) \<and> (0 < ps_pid (t ! i) \<longrightarrow> ps_pid (t ! i) \<in> S)"
  using pids_nth [of i t] by (auto simp: table_ok_def list_all_length)

lemma table_ok_mono: "table_ok T S t \<Longrightarrow> S \<subseteq> S' \<Longrightarrow> table_ok T S' t"
  by (auto simp: table_ok_def)

lemma sys_ok_mono: "sys_ok T S s \<Longrightarrow> S \<subseteq> S' \<Longrightarrow> sys_ok T S' s"
  by (auto simp: sys_ok_def intro: table_ok_mono)

lemma table_ok_update:
  assumes "table_ok T S t" "i < length t" "same_entry (t ! i) p" "attached p" "0 < ps_pid p \<Longrightarrow> ps_pid p \<in> S"
  shows "table_ok T S (t[i := p])"
proof -
  have "list_all2 same_entry T (t[i := p])"
    using assms(1-3) by (auto simp: table_ok_def list_all2_conv_all_nth nth_list_update intro: same_entry_trans)
  moreover have "list_all attached (t[i := p])"
    using assms(1,2,4) by (auto simp: table_ok_def list_all_length nth_list_update)
  moreover have "pids (t[i := p]) \<subseteq> S"
  proof
    fix x assume "x \<in> pids (t[i := p])"
    then obtain q where q: "q \<in> set (t[i := p])" "x = ps_pid q" "0 < ps_pid q" by (auto simp: pids_def)
    with set_update_subset_insert [of t i p] have "q = p \<or> q \<in> set t" by auto
    then show "x \<in> S" using q assms(1,5) by (auto simp: table_ok_def pids_def)
  qed
  ultimately show ?thesis by (simp add: table_ok_def)
qed

lemma table_ok_map:
  assumes "table_ok T S t" "\<And>p. same_entry p (f p) \<and> attached (f p) = attached p \<and> ps_pid (f p) = ps_pid p"
  shows "table_ok T S (map f t)"
proof -
  have "list_all2 same_entry T (map f t)"
    using assms same_entry_trans by (fastforce simp: table_ok_def list_all2_conv_all_nth)
  moreover have "pids (map f t) \<subseteq> pids t" using assms(2) by (auto simp: pids_def)
  ultimately show ?thesis using assms by (auto simp: table_ok_def list_all_iff)
qed

lemma table_ok_length: "table_ok T S t \<Longrightarrow> length t = length T"
  by (auto simp: table_ok_def dest: list_all2_lengthD)

text \<open>One entry of a walk.\<close>

lemma walk_entries_Ret:
  assumes "walk_entries body here fin i s w = (Ret s', w')"
  obtains (entry) s1 where "i < length (sy_table s)" "body i s w = (Ret s1, w')" "s' = s1\<lparr>sy_pc := here (Suc i)\<rparr>"
  | (over) "length (sy_table s) \<le> i" "s' = s\<lparr>sy_pc := fin\<rparr>" "w' = w"
  using assms by (auto simp: walk_entries_def io_run(1) split: if_splits elim!: io_bind_Ret)

lemma update_entry_Ret:
  assumes "update_entry f i s w = (Ret s', w')"
  obtains p where "f (sy_table s ! i) w = (Ret p, w')" "s' = set_table ((sy_table s)[i := p]) s"
  using assms by (auto simp: update_entry_def io_run(1) elim!: io_bind_Ret)

lemma sample_entry_Ret:
  assumes "sample_entry k i s w = (Ret s', w')"
  obtains p e w1 where "fiveman_process_state_child_process_status k (sy_table s ! i) w = (Ret p, w1)"
    "i < length (sy_rows s)" "update_screen_entry k p (sy_rows s ! i) w1 = (Ret e, w')"
    "s' = (set_table ((sy_table s)[i := p]) s)\<lparr>sy_rows := (sy_rows s)[i := e]\<rparr>"
  using assms by (auto simp: sample_entry_def io_run(1,2) split: if_splits elim!: io_bind_Ret)

text \<open>The calls added between two worlds.\<close>

definition new_events :: "world \<Rightarrow> world \<Rightarrow> event list" where
  "new_events w w' = drop (length (trace w)) (trace w')"

lemma new_events_append [simp]: "trace w' = trace w @ es \<Longrightarrow> new_events w w' = es"
  by (simp add: new_events_def)

lemma sys_ok_table: "sys_ok T S s \<Longrightarrow> table_ok T S (sy_table s)"
  by (simp add: sys_ok_def)

lemma sys_ok_set_table: "sys_ok T S s \<Longrightarrow> table_ok T S' t \<Longrightarrow> S \<subseteq> S' \<Longrightarrow> sys_ok T S' (set_table t s)"
  by (simp add: sys_ok_def)

lemma sys_ok_pc: "sys_ok T S s \<Longrightarrow> sy_pc s \<noteq> Initializing \<Longrightarrow> sys_ok T S (s\<lparr>sy_pc := p\<rparr>)"
  by (simp add: sys_ok_def)

lemma entry_converged:
  assumes "fiveman_process_state_converge k p d w = (Ret q, w')" "table_ok T S t" "i < length t" "p = t ! i"
  shows "table_ok T (S \<union> spawned (new_events w w')) (t[i := q])"
proof -
  obtain es where es: "trace w' = trace w @ es"
    "performs k d (action_for (pi_intent (ps_intent p)) (pi_data (ps_intent p)) (found_alive es)) p es q"
    "attached p \<longrightarrow> attached q" "same_identity p q"
    using converge_run [OF assms(1)] by blast
  have p: "attached p" "0 < ps_pid p \<Longrightarrow> ps_pid p \<in> S"
    using table_ok_nth [OF assms(2,3)] assms(4) by simp_all
  have "Spawn x (Inr pid) \<in> set (deeds es) \<Longrightarrow> pid \<in> spawned es" for x pid
    by (auto simp: deeds_def spawned_def)
  then have pid: "ps_pid q = ps_pid p \<or> ps_pid q \<in> spawned es"
    using es(2) by (auto simp: performs_def split: action.splits)
  show ?thesis
  proof (rule table_ok_update)
    show "table_ok T (S \<union> spawned (new_events w w')) t" using assms(2) by (rule table_ok_mono) simp
    show "same_entry (t ! i) q" using es(4) assms(4) by (simp add: identity_entry)
    show "0 < ps_pid q \<Longrightarrow> ps_pid q \<in> S \<union> spawned (new_events w w')" using pid p(2) es(1) by auto
  qed (use assms es p in auto)
qed

lemma thread_step_ok:
  assumes run: "thread_step k s w = (Ret s', w')" and ok: "sys_ok T S s"
  shows "sys_ok T (S \<union> spawned (new_events w w')) s'"
proof -
  note tok = sys_ok_table [OF ok]
  have att: "attached (sy_table s ! i)" "0 < ps_pid (sy_table s ! i) \<Longrightarrow> ps_pid (sy_table s ! i) \<in> S"
    if "i < length (sy_table s)" for i
    using table_ok_nth [OF tok that] by simp_all
  show ?thesis
  proof (cases "sy_pc s")
    case Initializing
    let ?num = "th_num_entries (sy_thread s)"
    have num: "?num = length T" "length (sy_table s) = length T"
      using ok table_ok_length [OF tok] by (simp_all add: sys_ok_def)
    obtain cur prev w1 where i: "initialize_entries k ?num 0 (sy_table s) w = (Ret (cur, prev), w1)"
      "length cur = ?num" "\<forall>i < length (sy_table s). shows_process (0 + i) (sy_table s ! i) (cur ! i)"
      using initialize_entries_ok [of 0 "sy_table s" ?num k w] num by auto
    then have "s' = s\<lparr>sy_rows := cur, sy_pc := Reflecting\<rparr>"
      using run Initializing by (auto simp: thread_step_def io_run(1) elim!: io_bind_Ret)
    moreover have "rows_ok (length T) cur" using i num by (simp add: rows_ok_def shows_process_def)
    ultimately have "sys_ok T S s'" using ok by (simp add: sys_ok_def)
    then show ?thesis by (rule sys_ok_mono) simp
  next
    case Reflecting
    have s': "s' = (set_table (fiveman_process_state_table_reflect_desired_intent (sy_table s)) s)\<lparr>sy_pc := Reaping 0\<rparr>"
      using run Reflecting by (auto simp: thread_step_def io_run(1) elim!: io_bind_Ret with_lock_Ret)
    have "table_ok T S (fiveman_process_state_table_reflect_desired_intent (sy_table s))"
      unfolding fiveman_process_state_table_reflect_desired_intent_def
      by (rule table_ok_map [OF tok]) (simp add: fiveman_process_state_reflect_desired_intent_def same_entry_def)
    from sys_ok_set_table [OF ok this] have "sys_ok T S s'"
      unfolding s' using Reflecting by (intro sys_ok_pc) simp_all
    then show ?thesis by (rule sys_ok_mono) simp
  next
    case (Reaping i)
    from run Reaping have "walk_entries (update_entry (fiveman_process_state_reap_zombie_processes k)) Reaping (Converging 0) i s w = (Ret s', w')"
      by (simp add: thread_step_def)
    then have "sys_ok T S s'"
    proof (cases rule: walk_entries_Ret)
      case (entry s1)
      from entry(2) obtain p where p: "fiveman_process_state_reap_zombie_processes k (sy_table s ! i) w = (Ret p, w')"
        "s1 = set_table ((sy_table s)[i := p]) s" by (rule update_entry_Ret)
      with reaping.step [OF p(1)] have "s1 = s" by simp
      with entry(3) ok Reaping show ?thesis by (simp add: sys_ok_pc)
    qed (use ok Reaping in \<open>simp add: sys_ok_pc\<close>)
    then show ?thesis by (rule sys_ok_mono) simp
  next
    case (Converging i)
    from run Converging have "walk_entries (update_entry (\<lambda>ps. fiveman_process_state_converge k ps (th_directory (sy_thread s))))
        Converging (Sampling 0) i s w = (Ret s', w')"
      by (simp add: thread_step_def)
    then show ?thesis
    proof (cases rule: walk_entries_Ret)
      case (entry s1)
      from entry(2) obtain p where p: "fiveman_process_state_converge k (sy_table s ! i) (th_directory (sy_thread s)) w = (Ret p, w')"
        "s1 = set_table ((sy_table s)[i := p]) s" by (rule update_entry_Ret)
      from entry_converged [OF p(1) tok entry(1) refl] sys_ok_set_table [OF ok]
      have "sys_ok T (S \<union> spawned (new_events w w')) s1" unfolding p(2) by simp
      with entry(3) p(2) Converging show ?thesis by (simp add: sys_ok_pc)
    next
      case over
      with ok Converging have "sys_ok T S s'" by (simp add: sys_ok_pc)
      then show ?thesis by (rule sys_ok_mono) simp
    qed
  next
    case (Sampling i)
    from run Sampling have "walk_entries (sample_entry k) Sampling Publishing i s w = (Ret s', w')"
      by (simp add: thread_step_def)
    then have "sys_ok T S s'"
    proof (cases rule: walk_entries_Ret)
      case (entry s1)
      from entry(2) obtain p e w1 where p: "fiveman_process_state_child_process_status k (sy_table s ! i) w = (Ret p, w1)"
        "i < length (sy_rows s)" "update_screen_entry k p (sy_rows s ! i) w1 = (Ret e, w')"
        "s1 = (set_table ((sy_table s)[i := p]) s)\<lparr>sy_rows := (sy_rows s)[i := e]\<rparr>" by (rule sample_entry_Ret)
      have c: "attached p" "ps_pid p = ps_pid (sy_table s ! i)" "same_entry (sy_table s ! i) p"
        using child_status_Ret [OF p(1) att(1) [OF entry(1)]] by (auto intro: identity_entry)
      have "table_ok T S ((sy_table s)[i := p])"
        using tok entry(1) c att(2) [OF entry(1)] by (intro table_ok_update) auto
      moreover have "en_state e = en_state (sy_rows s ! i)"
        using update_screen_entry_run [of k p "sy_rows s ! i" w1] p(3) by auto
      then have "rows_ok (length T) ((sy_rows s)[i := e])"
        using ok Sampling p(2) by (auto simp: sys_ok_def rows_ok_def nth_list_update)
      ultimately show ?thesis using ok entry(3) p(4) by (simp add: sys_ok_def)
    qed (use ok Sampling in \<open>simp add: sys_ok_pc\<close>)
    then show ?thesis by (rule sys_ok_mono) simp
  next
    case Publishing
    with run have "s' = s\<lparr>sy_thread := (sy_thread s)\<lparr>th_cur_entries := sy_rows s\<rparr>,
        sy_pc := (if th_exit (sy_thread s) then Finished else Sleeping)\<rparr>"
      by (auto simp: thread_step_def io_run(1) elim!: io_bind_Ret with_lock_Ret)
    with ok Publishing have "sys_ok T S s'" by (simp add: sys_ok_def)
    then show ?thesis by (rule sys_ok_mono) simp
  next
    case Sleeping
    with run have "s' = s\<lparr>sy_pc := Reflecting\<rparr>" by (auto simp: thread_step_def io_simps)
    with ok Sleeping have "sys_ok T S s'" by (simp add: sys_ok_pc)
    then show ?thesis by (rule sys_ok_mono) simp
  next
    case Finished
    with run have "s' = s" by (simp add: thread_step_def io_run)
    with ok show ?thesis by (auto intro: sys_ok_mono)
  qed
qed

text \<open>The keys change at most the selected entry, and of it only the wish and the times of paging.\<close>

lemma handle_key_entry:
  assumes "handle_key k fork n c th u w = (Ret (th', u'), w')"
  obtains i q where "th' = th\<lparr>th_table := (th_table th)[i := q]\<rparr>" "i < length (th_table th)"
    "same_entry (th_table th ! i) q" "attached q = attached (th_table th ! i)" "ps_pid q = ps_pid (th_table th ! i)"
    "ps_intent q = ps_intent (th_table th ! i)"
    "ps_desired_intent q \<noteq> ps_desired_intent (th_table th ! i) \<longrightarrow> c = key CHR ''s'' \<or> c = key CHR ''l''"
    "c \<noteq> key CHR ''l'' \<longrightarrow> pi_intent (ps_desired_intent q) \<in> {INTENT_STOP, pi_intent (ps_desired_intent (th_table th ! i))}"
  | "th' = th"
proof -
  note m = that
  have sel: thesis if u: "update_selected f th x v = (Ret th', v')"
    and f: "\<And>p q v v'. f p v = (Ret q, v') \<Longrightarrow> same_entry p q \<and> attached q = attached p \<and> ps_pid q = ps_pid p \<and> ps_intent q = ps_intent p
      \<and> (ps_desired_intent q \<noteq> ps_desired_intent p \<longrightarrow> c = key CHR ''s'' \<or> c = key CHR ''l'')
      \<and> (c \<noteq> key CHR ''l'' \<longrightarrow> pi_intent (ps_desired_intent q) \<in> {INTENT_STOP, pi_intent (ps_desired_intent p)})" for f x v v'
    using u
  proof (rule update_selected_Ret)
    fix q assume "0 \<le> ui_highlighted_row x" "ui_highlighted_row x < int (length (th_table th))"
      "f (th_table th ! nat (ui_highlighted_row x)) v = (Ret q, v')"
      "th' = th\<lparr>th_table := (th_table th)[nat (ui_highlighted_row x) := q]\<rparr>"
    with f [of "th_table th ! nat (ui_highlighted_row x)" v q v'] show thesis
      by (intro m(1) [of "nat (ui_highlighted_row x)" q]) (auto simp: nat_less_iff)
  qed
  have page: "\<exists>t. q = p\<lparr>ps_stdout_paged_at := t\<rparr>" if "fiveman_process_state_page_stdout k p fork v = (Ret q, v')" for p q v v'
    using that by (auto simp: fiveman_process_state_page_stdout_def io_run(1) elim!: io_elims)
  have page': "\<exists>t. q = p\<lparr>ps_stderr_paged_at := t\<rparr>" if "fiveman_process_state_page_stderr k p fork v = (Ret q, v')" for p q v v'
    using that by (auto simp: fiveman_process_state_page_stderr_def io_run(1) elim!: io_elims)
  show thesis
    using assms unfolding handle_key_def Let_def
    by (auto simp: io_run(1) split: if_splits elim!: io_elims with_lock_Ret intro: m(2))
      (erule sel; auto simp: fiveman_process_state_desires_intent_def same_entry_def key_numbers io_run(1)
        dest!: page page')+
qed

lemma handle_key_thread:
  "handle_key k fork n c th u w = (Ret (th', u'), w') \<Longrightarrow> th_num_entries th' = th_num_entries th
     \<and> th_cur_entries th' = th_cur_entries th \<and> th_exit th' = th_exit th \<and> th_directory th' = th_directory th"
  by (erule handle_key_entry) simp_all

lemma ui_step_ok:
  assumes run: "ui_step k se s w = (Ret s', w')" and ok: "sys_ok T S s" and n: "se_total_states se = length T"
  shows "sys_ok T S s'"
proof (cases "sy_ui_pc s")
  case Drawing
  then obtain u where "draw_frame k (se_procfile se) (se_directory se) (sy_thread s) (sy_ui s) w = (Ret u, w')"
    "s' = s\<lparr>sy_ui := u, sy_ui_pc := Waiting\<rparr>"
    using run by (auto simp: ui_step_def io_run(1) elim!: io_bind_Ret)
  with draw_frame_Ret ok show ?thesis by (fastforce simp: sys_ok_def)
next
  case Waiting
  then obtain c where "s' = s\<lparr>sy_ui_pc := Handling c\<rparr>"
    using run by (auto simp: ui_step_def io_run(1) elim!: io_bind_Ret)
  with ok show ?thesis by (simp add: sys_ok_def)
next
  case (Handling c)
  then obtain th u where h: "handle_key k (se_fork se) (se_total_states se) c (sy_thread s) (sy_ui s) w = (Ret (th, u), w')"
    "s' = s\<lparr>sy_thread := th, sy_ui := u, sy_ui_pc := Checking\<rparr>"
    using run by (auto simp: ui_step_def io_run(1) elim!: io_bind_Ret)
  have "table_ok T S (th_table th)"
    using h(1)
  proof (rule handle_key_entry)
    fix i q assume a: "th = (sy_thread s)\<lparr>th_table := (sy_table s)[i := q]\<rparr>" "i < length (sy_table s)"
      "same_entry (sy_table s ! i) q" "attached q = attached (sy_table s ! i)" "ps_pid q = ps_pid (sy_table s ! i)"
    with table_ok_nth [OF sys_ok_table [OF ok] a(2)] have "table_ok T S ((sy_table s)[i := q])"
      by (intro table_ok_update [OF sys_ok_table [OF ok] a(2)]) simp_all
    with a(1) show "table_ok T S (th_table th)" by simp
  qed (use ok in \<open>simp add: sys_ok_def\<close>)
  with handle_key_thread [OF h(1)] handle_key_Ret [OF h(1)] ok h(2) n show ?thesis by (simp add: sys_ok_def)
next
  case Checking
  then have "s' = s\<lparr>sy_ui_pc := Deciding\<rparr>"
    using run by (auto simp: ui_step_def io_run(1) elim!: io_then_Ret)
  with ok show ?thesis by (simp add: sys_ok_def)
next
  case Deciding
  show ?thesis
  proof (cases "exit_fiveman_immediately w")
    case True
    with run Deciding have "s' = s\<lparr>sy_ui_pc := Left\<rparr>" by (simp add: ui_step_def io_run)
    with ok show ?thesis by (simp add: sys_ok_def)
  next
    case False
    with run Deciding obtain th u where r: "request_exit k (sy_thread s) (sy_ui s) w = (Ret (th, u), w')"
      "s' = s\<lparr>sy_thread := th, sy_ui := u, sy_ui_pc := Drawing\<rparr>"
      by (auto simp: ui_step_def io_run(1,6) elim!: io_bind_Ret)
    have "table_ok T S (fiveman_process_state_table_desires_intent (sy_table s) INTENT_STOP)"
      unfolding fiveman_process_state_table_desires_intent_def
      by (rule table_ok_map [OF sys_ok_table [OF ok]]) (simp add: fiveman_process_state_desires_intent_def same_entry_def)
    with r ok show ?thesis by (auto simp: request_exit_run sys_ok_def Let_def split: if_splits)
  qed
next
  case Left
  with run ok show ?thesis by (simp add: ui_step_def io_run)
qed

lemma system_step_ok:
  assumes run: "system_step k se a s w = (Ret s', w')" and ok: "sys_ok T S s" and n: "se_total_states se = length T"
  shows "sys_ok T (S \<union> spawned (new_events w w')) s'"
proof (cases a)
  case Status_thread
  with run ok show ?thesis by (simp add: system_step_def thread_step_ok)
next
  case Screen_loop
  with run have "sys_ok T S s'" by (auto simp: system_step_def intro: ui_step_ok [OF _ ok n])
  then show ?thesis by (rule sys_ok_mono) simp
next
  case Signal_chld
  with run obtain t where t: "handle_sigchld k (sy_table s) w = (Ret t, w')" "s' = set_table t s"
    by (auto simp: system_step_def io_run(1) elim!: io_bind_Ret)
  then have "t = sy_table s" by (simp add: handle_sigchld_Ret)
  with t(2) ok show ?thesis by (auto intro: sys_ok_mono)
next
  case Signal_int
  with run ok show ?thesis by (auto simp: system_step_def handle_sigint_def io_simps intro: sys_ok_mono)
qed

text \<open>The state in which the two threads are let loose.\<close>

definition launched :: "fiveman_status_thread \<Rightarrow> ui \<Rightarrow> system" where
  "launched th u = \<lparr> sy_thread = th, sy_pc = Initializing, sy_rows = [], sy_ui = u, sy_ui_pc = Drawing \<rparr>"

definition ready :: "fiveman_status_thread \<Rightarrow> ui \<Rightarrow> bool" where
  "ready th u \<longleftrightarrow> list_all (\<lambda>ps. ps_pid ps = 0) (th_table th) \<and> th_num_entries th = length (th_table th)
     \<and> rows_ok (length (th_table th)) (th_cur_entries th)
     \<and> 0 \<le> ui_highlighted_row u \<and> ui_highlighted_row u < int (length (th_table th))"

lemma launched_ok: "ready th u \<Longrightarrow> sys_ok (th_table th) {} (launched th u)"
  by (auto simp: ready_def sys_ok_def table_ok_def launched_def pids_def attached_def list_all_iff
      list_all2_same)

lemma reachable_ok:
  assumes "reachable k se (s0, w0) (s, w)" "sys_ok T S s0" "se_total_states se = length T"
  shows "\<exists>es. trace w = trace w0 @ es \<and> own_targets S es \<and> sys_ok T (S \<union> spawned es) s"
  using assms(1)
proof (induction "(s, w)" arbitrary: s w rule: reachable.induct)
  case start
  with assms(2) show ?case by auto
next
  case (step d a)
  obtain s1 w1 where d: "d = (s1, w1)" by (cases d)
  with step obtain es where es: "trace w1 = trace w0 @ es" "own_targets S es" "sys_ok T (S \<union> spawned es) s1" by blast
  from step d have run: "system_step k se a s1 w1 = (Ret s, w)" by auto
  from es(3) have att: "list_all attached (sy_table s1)" and own: "pids (sy_table s1) \<subseteq> S \<union> spawned es"
    by (auto simp: sys_ok_def table_ok_def)
  obtain fs where fs: "trace w = trace w1 @ fs" "list_all (targets (pids (sy_table s1))) fs"
    using emitsD [OF system_step_targets [OF att] run] by blast
  then have "list_all (targets (S \<union> spawned es)) fs"
    using targets_mono [OF _ own] by (simp add: list_all_iff)
  then have "own_targets (S \<union> spawned es) fs" by (rule own_targets_all)
  with es fs system_step_ok [OF run es(3) assms(3)] show ?case
    by (intro exI [of _ "es @ fs"]) (simp add: own_targets_append Un_assoc)
qed

section \<open>Nothing is launched after the wish to stop has been reflected\<close>

definition no_launch :: "event \<Rightarrow> bool" where
  "no_launch e = (case e of Spawn q r \<Rightarrow> False | _ \<Rightarrow> True)"

interpretation launching: call_filter no_launch "\<lambda>_. True"
proof
  show "no_launch e" if "\<And>q r. e \<noteq> Spawn q r" for e using that by (cases e) (auto simp: no_launch_def)
qed (simp_all add: no_launch_def)

text \<open>Every wish is to stop, and no intent is to start or the intents are reflected before the next walk that
  converges.\<close>

definition resigned :: "process_table \<Rightarrow> bool" where
  "resigned = list_all (\<lambda>ps. pi_intent (ps_desired_intent ps) = INTENT_STOP)"

definition calm :: "process_table \<Rightarrow> bool" where
  "calm = list_all (\<lambda>ps. pi_intent (ps_intent ps) \<noteq> INTENT_START)"

definition walking :: "thread_pc \<Rightarrow> bool" where
  "walking pc = (case pc of Reaping i \<Rightarrow> True | Converging i \<Rightarrow> True | _ \<Rightarrow> False)"

definition stopping :: "system \<Rightarrow> bool" where
  "stopping s \<longleftrightarrow> resigned (sy_table s) \<and> (walking (sy_pc s) \<longrightarrow> calm (sy_table s))"

lemma walking_simps [simp]:
  "\<not> walking Initializing" "\<not> walking Reflecting" "walking (Reaping i)" "walking (Converging i)" "\<not> walking (Sampling i)"
  "\<not> walking Publishing" "\<not> walking Sleeping" "\<not> walking Finished"
  by (simp_all add: walking_def)

lemma list_all_update: "list_all P t \<Longrightarrow> P q \<Longrightarrow> list_all P (t[i := q])"
  by (cases "i < length t") (auto simp: list_all_length nth_list_update list_update_beyond)

lemma converge_no_launch:
  assumes "pi_intent (ps_intent ps) \<noteq> INTENT_START"
  shows "emits no_launch (fiveman_process_state_converge k ps d)"
  using assms unfolding fiveman_process_state_converge_def stat_output_def fiveman_process_state_converge_none_def
    fiveman_process_state_converge_signal_def fiveman_process_state_converge_stop_def fiveman_process_state_stop_def
    touch_state_change_def Let_def
  by (cases "pi_intent (ps_intent ps)")
    (auto intro!: emits_intros launching.alive_calls launching.signal_calls)

lemma stopping_no_launch:
  assumes "stopping s" "list_all attached (sy_table s)"
  shows "emits no_launch (system_step k se a s)"
proof (rule launching.system_step_calls)
  fix i assume "sy_pc s = Converging i" "i < length (sy_table s)"
  with assms(1) have "pi_intent (ps_intent (sy_table s ! i)) \<noteq> INTENT_START"
    by (simp add: stopping_def calm_def list_all_length)
  then show "emits no_launch (fiveman_process_state_converge k (sy_table s ! i) (th_directory (sy_thread s)))"
    by (rule converge_no_launch)
qed (use assms in \<open>simp_all add: knows_def\<close>)

text \<open>The key that wishes a start is not being handled.\<close>

definition launch_pressed :: "system \<Rightarrow> bool" where
  "launch_pressed s \<longleftrightarrow> sy_ui_pc s = Handling (key CHR ''l'')"

lemma stopping_nth:
  "stopping s \<Longrightarrow> i < length (sy_table s) \<Longrightarrow> pi_intent (ps_desired_intent (sy_table s ! i)) = INTENT_STOP
     \<and> (walking (sy_pc s) \<longrightarrow> pi_intent (ps_intent (sy_table s ! i)) \<noteq> INTENT_START)"
  by (simp add: stopping_def resigned_def calm_def list_all_length)

lemma stopping_update:
  "stopping s \<Longrightarrow> pi_intent (ps_desired_intent q) = INTENT_STOP \<Longrightarrow>
   (walking (sy_pc s) \<Longrightarrow> pi_intent (ps_intent q) \<noteq> INTENT_START) \<Longrightarrow> stopping (set_table ((sy_table s)[i := q]) s)"
  by (simp add: stopping_def resigned_def calm_def list_all_update)

lemma stopping_pc: "stopping s \<Longrightarrow> (walking p \<Longrightarrow> walking (sy_pc s)) \<Longrightarrow> stopping (s\<lparr>sy_pc := p\<rparr>)"
  by (simp add: stopping_def)

lemma thread_step_stopping:
  assumes run: "thread_step k s w = (Ret s', w')" and st: "stopping s" and att: "list_all attached (sy_table s)"
  shows "stopping s'"
proof (cases "sy_pc s")
  case Initializing
  with run obtain cur where "s' = s\<lparr>sy_rows := cur, sy_pc := Reflecting\<rparr>"
    by (auto simp: thread_step_def io_run(1) elim!: io_bind_Ret)
  with st show ?thesis by (simp add: stopping_def)
next
  case Reflecting
  with run have "s' = (set_table (fiveman_process_state_table_reflect_desired_intent (sy_table s)) s)\<lparr>sy_pc := Reaping 0\<rparr>"
    by (auto simp: thread_step_def io_run(1) elim!: io_bind_Ret with_lock_Ret)
  with st show ?thesis
    by (auto simp: stopping_def resigned_def calm_def list_all_iff fiveman_process_state_table_reflect_desired_intent_def
        fiveman_process_state_reflect_desired_intent_def)
next
  case (Reaping i)
  from run Reaping have "walk_entries (update_entry (fiveman_process_state_reap_zombie_processes k)) Reaping (Converging 0) i s w = (Ret s', w')"
    by (simp add: thread_step_def)
  then show ?thesis
  proof (cases rule: walk_entries_Ret)
    case (entry s1)
    from entry(2) obtain p where p: "fiveman_process_state_reap_zombie_processes k (sy_table s ! i) w = (Ret p, w')"
      "s1 = set_table ((sy_table s)[i := p]) s" by (rule update_entry_Ret)
    with reaping.step [OF p(1)] entry(3) st Reaping show ?thesis by (simp add: stopping_pc)
  qed (use st Reaping in \<open>simp add: stopping_pc\<close>)
next
  case (Converging i)
  from run Converging have "walk_entries (update_entry (\<lambda>ps. fiveman_process_state_converge k ps (th_directory (sy_thread s))))
      Converging (Sampling 0) i s w = (Ret s', w')"
    by (simp add: thread_step_def)
  then show ?thesis
  proof (cases rule: walk_entries_Ret)
    case (entry s1)
    from entry(2) obtain p where p: "fiveman_process_state_converge k (sy_table s ! i) (th_directory (sy_thread s)) w = (Ret p, w')"
      "s1 = set_table ((sy_table s)[i := p]) s" by (rule update_entry_Ret)
    from converge_run [OF p(1)] stopping_nth [OF st entry(1)] Converging
    have "pi_intent (ps_desired_intent p) = INTENT_STOP" "pi_intent (ps_intent p) \<noteq> INTENT_START"
      by (auto simp: same_identity_def split: if_splits)
    with p(2) entry(3) st Converging show ?thesis by (simp add: stopping_pc stopping_update)
  qed (use st Converging in \<open>simp add: stopping_pc\<close>)
next
  case (Sampling i)
  from run Sampling have "walk_entries (sample_entry k) Sampling Publishing i s w = (Ret s', w')"
    by (simp add: thread_step_def)
  then show ?thesis
  proof (cases rule: walk_entries_Ret)
    case (entry s1)
    from entry(2) obtain p e w1 where p: "fiveman_process_state_child_process_status k (sy_table s ! i) w = (Ret p, w1)"
      "s1 = (set_table ((sy_table s)[i := p]) s)\<lparr>sy_rows := (sy_rows s)[i := e]\<rparr>" by (auto elim: sample_entry_Ret)
    have "attached (sy_table s ! i)" using att entry(1) by (simp add: list_all_length)
    from child_status_Ret [OF p(1) this] stopping_nth [OF st entry(1)]
    have "pi_intent (ps_desired_intent p) = INTENT_STOP" by (simp add: same_identity_def)
    with stopping_update [OF st, of p i] p(2) entry(3) Sampling show ?thesis by (simp add: stopping_def)
  qed (use st Sampling in \<open>simp add: stopping_def\<close>)
next
  case Publishing
  with run have "s' = s\<lparr>sy_thread := (sy_thread s)\<lparr>th_cur_entries := sy_rows s\<rparr>,
      sy_pc := (if th_exit (sy_thread s) then Finished else Sleeping)\<rparr>"
    by (auto simp: thread_step_def io_run(1) elim!: io_bind_Ret with_lock_Ret)
  with st show ?thesis by (simp add: stopping_def)
next
  case Sleeping
  with run have "s' = s\<lparr>sy_pc := Reflecting\<rparr>" by (auto simp: thread_step_def io_simps)
  with st show ?thesis by (simp add: stopping_def)
next
  case Finished
  with run st show ?thesis by (simp add: thread_step_def io_run)
qed

lemma ui_step_stopping:
  assumes run: "ui_step k se s w = (Ret s', w')" and st: "stopping s" and l: "sy_ui_pc s \<noteq> Handling (key CHR ''l'')"
  shows "stopping s'"
proof (cases "sy_ui_pc s")
  case (Handling c)
  then obtain th u where h: "handle_key k (se_fork se) (se_total_states se) c (sy_thread s) (sy_ui s) w = (Ret (th, u), w')"
    "s' = s\<lparr>sy_thread := th, sy_ui := u, sy_ui_pc := Checking\<rparr>"
    using run by (auto simp: ui_step_def io_run(1) elim!: io_bind_Ret)
  from h(1) show ?thesis
  proof (rule handle_key_entry)
    fix i q assume a: "th = (sy_thread s)\<lparr>th_table := (sy_table s)[i := q]\<rparr>" "i < length (sy_table s)"
      "ps_intent q = ps_intent (sy_table s ! i)"
      "c \<noteq> key CHR ''l'' \<longrightarrow> pi_intent (ps_desired_intent q) \<in> {INTENT_STOP, pi_intent (ps_desired_intent (sy_table s ! i))}"
    with stopping_nth [OF st a(2)] stopping_update [OF st, of q i] l Handling h(2) show ?thesis
      by (auto simp: stopping_def)
  qed (use st h(2) in \<open>simp add: stopping_def\<close>)
next
  case Deciding
  show ?thesis
  proof (cases "exit_fiveman_immediately w")
    case False
    with run Deciding obtain th u where r: "request_exit k (sy_thread s) (sy_ui s) w = (Ret (th, u), w')"
      "s' = s\<lparr>sy_thread := th, sy_ui := u, sy_ui_pc := Drawing\<rparr>"
      by (auto simp: ui_step_def io_run(1,6) elim!: io_bind_Ret)
    have "resigned (fiveman_process_state_table_desires_intent t INTENT_STOP)"
      "calm (fiveman_process_state_table_desires_intent t INTENT_STOP) = calm t" for t
      by (simp_all add: resigned_def calm_def list_all_iff fiveman_process_state_table_desires_intent_def
          fiveman_process_state_desires_intent_def)
    with r st show ?thesis by (auto simp: request_exit_run stopping_def Let_def split: if_splits)
  qed (use run Deciding st in \<open>auto simp: ui_step_def io_run stopping_def\<close>)
qed (use run st in \<open>auto simp: ui_step_def io_run(1) stopping_def elim!: io_bind_Ret io_then_Ret\<close>)

lemma signal_step_cases:
  assumes "system_step k se a s w = (Ret s', w')" "a = Signal_chld \<or> a = Signal_int"
  shows "s' = s"
  using assms by (auto simp: system_step_def handle_sigint_def io_run(1) elim!: io_bind_Ret io_then_Ret dest!: handle_sigchld_Ret)

lemma system_step_stopping:
  assumes "system_step k se a s w = (Ret s', w')" "stopping s" "list_all attached (sy_table s)"
    "sy_ui_pc s \<noteq> Handling (key CHR ''l'')"
  shows "stopping s'"
proof (cases a)
  case Status_thread
  with assms show ?thesis by (auto simp: system_step_def intro: thread_step_stopping)
next
  case Screen_loop
  with assms show ?thesis by (auto simp: system_step_def intro: ui_step_stopping)
qed (use assms signal_step_cases in blast)+

text \<open>A key is handled only after it was read.\<close>

lemma handling_read:
  assumes "system_step k se a s w = (Ret s', w')" "sy_ui_pc s' = Handling c" "sy_ui_pc s \<noteq> Handling c"
  shows "Getch c \<in> set (new_events w w')"
proof (cases a)
  case Status_thread
  then have "sy_ui_pc s' = sy_ui_pc s"
    using assms(1) by (auto simp: system_step_def thread_step_def walk_entries_def update_entry_def sample_entry_def io_run(1,2)
        set_table_def split: thread_pc.splits if_splits elim!: io_bind_Ret io_then_Ret)
  with assms show ?thesis by simp
next
  case Screen_loop
  with assms(1) have run: "ui_step k se s w = (Ret s', w')" by (simp add: system_step_def)
  show ?thesis
  proof (cases "sy_ui_pc s")
    case Waiting
    with run assms(2) have "sys_getch k w = (Ret c, w')"
      by (auto simp: ui_step_def io_run(1) elim!: io_bind_Ret)
    then have "trace w' = trace w @ [Getch c]"
      by (auto simp: sys_getch_def sys_call_def handle_sigint_def io_simps Let_def split: if_splits)
    then show ?thesis by simp
  qed (use run assms(2,3) in \<open>auto simp: ui_step_def io_run(1,6) split: if_splits elim!: io_bind_Ret io_then_Ret\<close>)
qed (use assms signal_step_cases in blast)+

lemma run_stopping:
  assumes "run_system k se as s w = (Ret s', w')" "stopping s" "sys_ok T S s" "se_total_states se = length T"
    "sy_ui_pc s \<noteq> Handling (key CHR ''l'')" "Getch (key CHR ''l'') \<notin> set (new_events w w')"
  shows "\<exists>es. trace w' = trace w @ es \<and> list_all no_launch es \<and> stopping s'"
  using assms
proof (induction as arbitrary: s w S)
  case Nil
  then show ?case by (intro exI [of _ "[]"]) (simp add: io_run)
next
  case (Cons a as)
  obtain s1 w1 where one: "system_step k se a s w = (Ret s1, w1)" and rest: "run_system k se as s1 w1 = (Ret s', w')"
    using Cons.prems(1) by (auto elim!: io_bind_Ret)
  have att: "list_all attached (sy_table s)" using Cons.prems(3) by (simp add: sys_ok_def table_ok_def)
  obtain es1 where es1: "trace w1 = trace w @ es1" "list_all no_launch es1"
    using emitsD [OF stopping_no_launch [OF Cons.prems(2) att] one] by blast
  have ok1: "sys_ok T (S \<union> spawned (new_events w w1)) s1" using system_step_ok [OF one Cons.prems(3,4)] .
  obtain es where es: "trace w' = trace w1 @ es"
    using reachable_ok [OF reachable_run [OF rest reachable.start] ok1 Cons.prems(4)] by blast
  have new: "set (new_events w1 w') \<subseteq> set (new_events w w')" "set es1 \<subseteq> set (new_events w w')"
    using es es1(1) by auto
  have l: "sy_ui_pc s1 \<noteq> Handling (key CHR ''l'')"
  proof
    assume l: "sy_ui_pc s1 = Handling (key CHR ''l'')"
    from handling_read [OF one l Cons.prems(5)] es1(1) have "Getch (key CHR ''l'') \<in> set es1" by simp
    with new(2) Cons.prems(6) show False by blast
  qed
  have st: "stopping s1" using system_step_stopping [OF one Cons.prems(2) att Cons.prems(5)] .
  have "Getch (key CHR ''l'') \<notin> set (new_events w1 w')" using new(1) Cons.prems(6) by blast
  from Cons.IH [OF rest st ok1 Cons.prems(4) l this] obtain es2 where
    "trace w' = trace w1 @ es2" "list_all no_launch es2" "stopping s'" by blast
  with es1 show ?case by (intro exI [of _ "es1 @ es2"]) simp
qed

section \<open>The status thread ends when it is told to\<close>

text \<open>How many steps of its own the thread is from its end, once the flag is set, over \<open>n\<close> entries.\<close>

definition rank :: "nat \<Rightarrow> thread_pc \<Rightarrow> nat" where
  "rank n pc = (case pc of
       Finished \<Rightarrow> 0
     | Publishing \<Rightarrow> 1
     | Sampling i \<Rightarrow> 2 + (n - i)
     | Converging i \<Rightarrow> n + 3 + (n - i)
     | Reaping i \<Rightarrow> 2 * n + 4 + (n - i)
     | Reflecting \<Rightarrow> 3 * n + 5
     | Initializing \<Rightarrow> 3 * n + 6
     | Sleeping \<Rightarrow> 3 * n + 6)"

lemma rank_bound: "rank n pc \<le> 3 * n + 6"
  by (cases pc; simp add: rank_def le_diff_conv)

lemma walk_entries_rank:
  assumes "walk_entries body here fin i s w = (Ret s', w')" "\<And>s1. body i s w = (Ret s1, w') \<Longrightarrow> P s1 \<and> Q s1"
    "Q s" "\<And>s p. Q s \<Longrightarrow> Q (s\<lparr>sy_pc := p\<rparr>)"
  shows "Q s' \<and> (i < length (sy_table s) \<and> sy_pc s' = here (Suc i) \<or> length (sy_table s) \<le> i \<and> sy_pc s' = fin)"
  using assms(1)
proof (cases rule: walk_entries_Ret)
  case (entry s1)
  with assms(2) [OF entry(2)] assms(4) show ?thesis by simp
next
  case over
  with assms(3,4) show ?thesis by simp
qed

lemma thread_step_rank:
  assumes run: "thread_step k s w = (Ret s', w')" and exit: "th_exit (sy_thread s)" and go: "sy_pc s \<noteq> Finished"
  shows "rank (length (sy_table s')) (sy_pc s') < rank (length (sy_table s)) (sy_pc s)
    \<and> th_exit (sy_thread s') \<and> length (sy_table s') = length (sy_table s)"
proof -
  define Q where "Q s1 \<longleftrightarrow> th_exit (sy_thread s1) \<and> length (sy_table s1) = length (sy_table s)" for s1 :: system
  have Q0: "Q s" and Qpc: "\<And>s p. Q s \<Longrightarrow> Q (s\<lparr>sy_pc := p\<rparr>)" using exit by (simp_all add: Q_def)
  have upd: "Q s1" if "update_entry f i s w = (Ret s1, w')" for f i s1
    using that exit by (auto elim!: update_entry_Ret simp: Q_def)
  have smp: "Q s1" if "sample_entry k i s w = (Ret s1, w')" for i s1
    using that exit by (auto elim!: sample_entry_Ret simp: Q_def)
  have "Q s' \<and> rank (length (sy_table s)) (sy_pc s') < rank (length (sy_table s)) (sy_pc s)"
  proof (cases "sy_pc s")
    case Initializing
    with run exit show ?thesis
      by (auto simp: thread_step_def rank_def Q_def io_run(1) elim!: io_bind_Ret)
  next
    case Reflecting
    with run exit show ?thesis
      by (auto simp: thread_step_def rank_def Q_def io_run(1) fiveman_process_state_table_reflect_desired_intent_def
          elim!: io_bind_Ret with_lock_Ret)
  next
    case (Reaping i)
    with run have "walk_entries (update_entry (fiveman_process_state_reap_zombie_processes k)) Reaping (Converging 0) i s w = (Ret s', w')"
      by (simp add: thread_step_def)
    from walk_entries_rank [where Q = Q and P = "\<lambda>_. True", OF this] upd Q0 Qpc Reaping show ?thesis
      by (auto simp: rank_def)
  next
    case (Converging i)
    with run have "walk_entries (update_entry (\<lambda>ps. fiveman_process_state_converge k ps (th_directory (sy_thread s))))
        Converging (Sampling 0) i s w = (Ret s', w')"
      by (simp add: thread_step_def)
    from walk_entries_rank [where Q = Q and P = "\<lambda>_. True", OF this] upd Q0 Qpc Converging show ?thesis
      by (auto simp: rank_def)
  next
    case (Sampling i)
    with run have "walk_entries (sample_entry k) Sampling Publishing i s w = (Ret s', w')"
      by (simp add: thread_step_def)
    from walk_entries_rank [where Q = Q and P = "\<lambda>_. True", OF this] smp Q0 Qpc Sampling show ?thesis
      by (auto simp: rank_def)
  next
    case Publishing
    with run exit show ?thesis
      by (auto simp: thread_step_def rank_def Q_def io_run(1) elim!: io_bind_Ret with_lock_Ret)
  next
    case Sleeping
    with run exit show ?thesis
      by (auto simp: thread_step_def rank_def Q_def io_simps)
  qed (use go in simp)
  then show ?thesis by (simp add: Q_def)
qed

lemma run_thread_ends:
  "run_thread k n s w = (Ret s', w') \<Longrightarrow> th_exit (sy_thread s) \<Longrightarrow> rank (length (sy_table s)) (sy_pc s) \<le> n \<Longrightarrow>
   sy_pc s' = Finished"
proof (induction n arbitrary: s w)
  case 0
  then show ?case by (simp add: io_run rank_def split: thread_pc.splits)
next
  case (Suc n)
  obtain s1 w1 where one: "thread_step k s w = (Ret s1, w1)" and rest: "run_thread k n s1 w1 = (Ret s', w')"
    using Suc.prems(1) by (auto elim!: io_bind_Ret)
  show ?case
  proof (cases "sy_pc s = Finished")
    case True
    with one have "s1 = s" by (simp add: thread_step_def io_run)
    then show ?thesis using Suc.IH [OF rest] Suc.prems(2) True by (simp add: rank_def)
  next
    case False
    from thread_step_rank [OF one Suc.prems(2) False] Suc.prems(3) show ?thesis by (intro Suc.IH [OF rest]) auto
  qed
qed

text \<open>A step of a stopping thread aborts only if the system answers a \<open>stat\<close> with \<open>EACCES\<close> or never runs out of
  zombies. \<open>waited\<close> is the history after \<open>n\<close> calls of \<open>waitpid\<close>; from every history on, and for every pid, one of the
  first calls (as many as the fuel) must find no more zombie.\<close>

fun waited :: "kernel \<Rightarrow> int \<Rightarrow> event list \<Rightarrow> nat \<Rightarrow> event list" where
  "waited k p h 0 = h"
| "waited k p h (Suc n) = waited k p (h @ [Waitpid p (k_waitpid k h p)]) n"

definition tame :: "kernel \<Rightarrow> bool" where
  "tame k \<longleftrightarrow> (\<forall>h f. k_stat k h f \<noteq> Inl EACCES)
     \<and> (\<forall>h p. \<exists>n < k_fuel k. \<not> 0 < k_waitpid k (waited k p h n) p)"

lemma stat_returns: "tame k \<Longrightarrow> \<exists>st w'. stat_output k f old w = (Ret st, w')"
  by (cases "k_stat k (trace w) f") (auto simp: tame_def stat_output_def io_simps)

lemma retry_ends:
  "n < m \<Longrightarrow> \<not> 0 < k_waitpid k (waited k p (trace w) n) p \<Longrightarrow>
   \<exists>w'. retry what (io_bind (sys_waitpid k p) (\<lambda>r. io_return (r > 0))) m w = (Ret (), w')"
proof (induction m arbitrary: n w)
  case (Suc m)
  let ?again = "io_bind (sys_waitpid k p) (\<lambda>r. io_return (r > 0))"
  let ?w1 = "w\<lparr>trace := trace w @ [Waitpid p (k_waitpid k (trace w) p)]\<rparr>"
  have "?again w = (Ret (0 < k_waitpid k (trace w) p), ?w1)" by (simp add: io_simps)
  then have bind: "io_bind ?again f w = f (0 < k_waitpid k (trace w) p) ?w1" for f :: "bool \<Rightarrow> unit eff"
    by (simp add: io_bind_def)
  show ?case
  proof (cases "0 < k_waitpid k (trace w) p")
    case True
    with Suc.prems obtain j where j: "n = Suc j" by (cases n) auto
    with Suc.prems have "\<exists>w'. retry what ?again m ?w1 = (Ret (), w')" by (intro Suc.IH [of j]) auto
    with True bind show ?thesis by simp
  next
    case False
    then have "retry what ?again (Suc m) w = io_return () ?w1" using bind by simp
    from trans [OF this io_run(1)] show ?thesis by (rule exI)
  qed
qed simp

lemma reap_returns:
  assumes "tame k"
  shows "\<exists>w'. fiveman_process_state_reap_zombie_processes k ps w = (Ret ps, w')"
proof -
  obtain n where n: "n < k_fuel k" "\<not> 0 < k_waitpid k (waited k (ps_pid ps) (trace w) n) (ps_pid ps)"
    using assms unfolding tame_def by blast
  from retry_ends [OF n, of "''waitpid''"] show ?thesis
    by (auto simp: fiveman_process_state_reap_zombie_processes_def io_run)
qed

lemma quiet_tame: "tame quiet_kernel"
  by (auto simp: tame_def quiet_kernel_def intro: exI [of _ 0])

lemma converge_returns:
  assumes "tame k" "pi_intent (ps_intent ps) \<noteq> INTENT_START"
  shows "\<exists>q w'. fiveman_process_state_converge k ps d w = (Ret q, w')"
proof -
  obtain out w1 where o: "stat_output k (ps_stdout ps) (ps_stdout_stat ps) w = (Ret out, w1)"
    using stat_returns [OF assms(1)] by blast
  obtain err w2 where e: "stat_output k (ps_stderr ps) (ps_stderr_stat ps) w1 = (Ret err, w2)"
    using stat_returns [OF assms(1)] by blast
  from o e assms(2) show ?thesis
    by (cases "pi_intent (ps_intent ps)")
      (auto simp: fiveman_process_state_converge_def io_simps Let_def fiveman_process_state_converge_signal_def
        fiveman_process_state_converge_stop_def fiveman_process_state_stop_def touch_state_change_def
        fiveman_process_state_converge_none_def)
qed

lemma thread_step_returns:
  assumes "tame k" "stopping s" "sys_ok T S s"
  shows "\<exists>s' w'. thread_step k s w = (Ret s', w')"
proof (cases "sy_pc s")
  case Initializing
  have "th_num_entries (sy_thread s) = length (sy_table s)"
    using assms(3) table_ok_length [OF sys_ok_table [OF assms(3)]] by (simp add: sys_ok_def)
  then obtain cur prev w1 where "initialize_entries k (th_num_entries (sy_thread s)) 0 (sy_table s) w = (Ret (cur, prev), w1)"
    using initialize_entries_ok [of 0 "sy_table s" "th_num_entries (sy_thread s)" k w] by auto
  with Initializing show ?thesis by (simp add: thread_step_def io_run)
next
  case (Reaping i)
  from reap_returns [OF assms(1)] obtain w' where "fiveman_process_state_reap_zombie_processes k (sy_table s ! i) w = (Ret (sy_table s ! i), w')"
    by blast
  with Reaping show ?thesis by (simp add: thread_step_def walk_entries_def update_entry_def io_run)
next
  case (Converging i)
  show ?thesis
  proof (cases "i < length (sy_table s)")
    case True
    from stopping_nth [OF assms(2) True] Converging have "pi_intent (ps_intent (sy_table s ! i)) \<noteq> INTENT_START" by simp
    from converge_returns [OF assms(1) this] obtain q w' where
      "fiveman_process_state_converge k (sy_table s ! i) (th_directory (sy_thread s)) w = (Ret q, w')" by blast
    with Converging show ?thesis by (simp add: thread_step_def walk_entries_def update_entry_def io_run)
  qed (use Converging in \<open>simp add: thread_step_def walk_entries_def io_run\<close>)
next
  case (Sampling i)
  show ?thesis
  proof (cases "i < length (sy_table s)")
    case True
    have "i < length (sy_rows s)" "attached (sy_table s ! i)"
      using assms(3) Sampling True table_ok_length [OF sys_ok_table [OF assms(3)]] table_ok_nth [OF sys_ok_table [OF assms(3)] True]
      by (auto simp: sys_ok_def rows_ok_def)
    moreover from child_status_run [OF this(2), of k w] obtain p w1 where
      "fiveman_process_state_child_process_status k (sy_table s ! i) w = (Ret p, w1)" by blast
    moreover from update_screen_entry_run [of k p "sy_rows s ! i" w1] obtain e w2 where
      "update_screen_entry k p (sy_rows s ! i) w1 = (Ret e, w2)" by blast
    ultimately show ?thesis using Sampling by (simp add: thread_step_def walk_entries_def sample_entry_def io_run)
  qed (use Sampling in \<open>simp add: thread_step_def walk_entries_def io_run\<close>)
qed (simp_all add: thread_step_def with_lock_def io_simps)

lemma run_thread_returns:
  "tame k \<Longrightarrow> stopping s \<Longrightarrow> sys_ok T S s \<Longrightarrow> \<exists>s' w'. run_thread k n s w = (Ret s', w')"
proof (induction n arbitrary: s S w)
  case (Suc n)
  obtain s1 w1 where one: "thread_step k s w = (Ret s1, w1)" using thread_step_returns [OF Suc.prems] by blast
  have att: "list_all attached (sy_table s)" using Suc.prems(3) by (simp add: sys_ok_def table_ok_def)
  from Suc.IH [OF Suc.prems(1) thread_step_stopping [OF one Suc.prems(2) att] thread_step_ok [OF one Suc.prems(3)]] one
  show ?case by (simp add: io_run)
qed (simp add: io_run)

section \<open>Files are made before and removed after the session\<close>

definition keeps_files :: "event \<Rightarrow> bool" where
  "keeps_files e = (case e of Mktemp t p \<Rightarrow> False | Unlink f \<Rightarrow> False | _ \<Rightarrow> True)"

interpretation filing: call_filter keeps_files "\<lambda>_. True"
proof
  show "keeps_files e" if "\<And>t p. e \<noteq> Mktemp t p" "\<And>f. e \<noteq> Unlink f" for e
    using that by (cases e) (auto simp: keeps_files_def)
qed (simp_all add: keeps_files_def)

lemma keeps_files_simps [simp]: "keeps_files (Spawn q r)" "\<not> keeps_files (Mktemp t p)" "\<not> keeps_files (Unlink f)"
  by (simp_all add: keeps_files_def)

lemma converge_files: "emits keeps_files (fiveman_process_state_converge k ps d)"
  unfolding fiveman_process_state_converge_def stat_output_def fiveman_process_state_converge_none_def
    fiveman_process_state_converge_start_def fiveman_process_state_start_def
    fiveman_process_state_converge_signal_def fiveman_process_state_converge_stop_def fiveman_process_state_stop_def
    touch_state_change_def Let_def
  by (auto intro!: emits_intros filing.alive_calls filing.signal_calls filing.sampling_calls
      split: FIVEMAN_INTENT.split prod.split option.split sum.split)

lemma system_step_files:
  "list_all attached (sy_table s) \<Longrightarrow> emits keeps_files (system_step k se a s)"
  by (rule filing.system_step_calls) (simp_all add: knows_def converge_files)

section \<open>Properties\<close>

text \<open>Fiveman signals and probes only processes it launched itself. In every interleaving of the status
  thread, the screen and the signal handlers that starts with a table nobody has been launched from,
  each \<open>kill\<close> and \<open>killpg\<close> names a positive pid that an earlier \<open>posix_spawn\<close> of the same run returned.
  The step that follows may also abort half-way: its calls obey the same rule.\<close>

theorem system_signals_only_children:
  assumes "ready th u" "se_total_states se = length (th_table th)"
    and "reachable k se (launched th u, w0) (s, w)" "system_step k se a s w = (r, w')"
  shows "\<exists>es. trace w' = trace w0 @ es \<and> own_targets {} es"
proof -
  obtain es where es: "trace w = trace w0 @ es" "own_targets {} es" "sys_ok (th_table th) (spawned es) s"
    using reachable_ok [OF assms(3) launched_ok [OF assms(1)] assms(2)] by auto
  then have att: "list_all attached (sy_table s)" and own: "pids (sy_table s) \<subseteq> spawned es"
    by (simp_all add: sys_ok_def table_ok_def)
  obtain fs where fs: "trace w' = trace w @ fs" "list_all (targets (pids (sy_table s))) fs"
    using emitsD [OF system_step_targets [OF att] assms(4)] by blast
  then have "own_targets (spawned es) fs"
    using targets_mono [OF _ own] by (intro own_targets_all) (simp add: list_all_iff)
  with es fs show ?thesis by (intro exI [of _ "es @ fs"]) (simp add: own_targets_append)
qed

definition example_session :: "nat \<Rightarrow> session" where
  "example_session n = \<lparr> se_procfile = ''P'', se_directory = ''/app'', se_total_states = n, se_fork = example_fork \<rparr>"

definition example_running :: fiveman_status_thread where
  "example_running = (example_thread [example_state])\<lparr>th_num_entries := 1, th_cur_entries := [zero_entry\<lparr>en_state := Some 0\<rparr>]\<rparr>"

lemma example_ready: "ready example_running example_ui"
  by (simp add: ready_def example_running_def example_thread_def example_state_def example_ui_def rows_ok_def)

theorem system_signals_only_children_witness:
  "\<exists>r w'. system_step quiet_kernel (example_session 1) Screen_loop (launched example_running example_ui) start_world = (r, w')
     \<and> own_targets {} (trace w')"
proof -
  obtain r w' where r: "system_step quiet_kernel (example_session 1) Screen_loop (launched example_running example_ui) start_world = (r, w')"
    by (cases "system_step quiet_kernel (example_session 1) Screen_loop (launched example_running example_ui) start_world")
  have "se_total_states (example_session 1) = length (th_table example_running)"
    by (simp add: example_session_def example_running_def example_thread_def)
  from system_signals_only_children [OF example_ready this reachable.start r] r show ?thesis
    by (auto simp: start_world_def)
qed

text \<open>C5: What every interleaving keeps. In every reachable state the table has the entries it started with, in
  their order, with their instruction, port and output paths; every process with a pid has a sampling
  context and was launched in this run; row \<open>i\<close> of the published entries and of the thread's own
  belongs to entry \<open>i\<close>; and the selection is an entry of the table.\<close>

theorem system_invariant:
  assumes "ready th u" "se_total_states se = length (th_table th)"
    and "reachable k se (launched th u, w0) (s, w)"
  shows "list_all2 same_entry (th_table th) (sy_table s) \<and> list_all attached (sy_table s)
    \<and> pids (sy_table s) \<subseteq> spawned (new_events w0 w)
    \<and> rows_ok (length (th_table th)) (th_cur_entries (sy_thread s))
    \<and> (sy_pc s \<noteq> Initializing \<longrightarrow> rows_ok (length (th_table th)) (sy_rows s))
    \<and> 0 \<le> ui_highlighted_row (sy_ui s) \<and> ui_highlighted_row (sy_ui s) < int (length (sy_table s))"
proof -
  obtain es where es: "trace w = trace w0 @ es" "sys_ok (th_table th) (spawned es) s"
    using reachable_ok [OF assms(3) launched_ok [OF assms(1)] assms(2)] by auto
  then show ?thesis using table_ok_length [OF sys_ok_table [OF es(2)]] by (simp add: sys_ok_def table_ok_def)
qed

theorem system_invariant_witness:
  "\<exists>s w. run_system quiet_kernel (example_session 1) [Status_thread, Signal_int, Status_thread] (launched example_running example_ui)
     start_world = (Ret s, w) \<and> sy_pc s = Reaping 0 \<and> rows_ok 1 (sy_rows s)"
proof -
  obtain cur prev w1 where i: "initialize_entries quiet_kernel 1 0 [example_state] start_world = (Ret (cur, prev), w1)"
    using initialize_entries_ok [of 0 "[example_state]" 1 quiet_kernel start_world] by auto
  obtain s w where r: "run_system quiet_kernel (example_session 1) [Status_thread, Signal_int, Status_thread] (launched example_running example_ui)
     start_world = (Ret s, w)" "sy_pc s = Reaping 0"
    using i by (simp add: system_step_def thread_step_def launched_def example_running_def example_thread_def
        handle_sigint_def with_lock_def io_simps)
  have "se_total_states (example_session 1) = length (th_table example_running)"
    by (simp add: example_session_def example_running_def example_thread_def)
  from system_invariant [OF example_ready this reachable_run [OF r(1) reachable.start]] r show ?thesis
    by (simp add: example_running_def example_thread_def)
qed

text \<open>C7: After the wish to stop has reached the intents, nothing is launched. From a reachable kind of state in
  which every process is wished to stop and either no intent says START or the status thread is not
  between the reflection and the end of its convergence, no run of any length, in any interleaving,
  launches a process, as long as the key \<open>l\<close> is not pressed.\<close>

theorem no_launch_after_quit:
  assumes "run_system k se as s w = (Ret s', w')" "stopping s" "sys_ok T S s" "se_total_states se = length T"
    and "\<not> launch_pressed s" "Getch (key CHR ''l'') \<notin> set (new_events w w')"
  shows "spawned (new_events w w') = {} \<and> stopping s'"
proof -
  obtain es where "trace w' = trace w @ es" "list_all no_launch es" "stopping s'"
    using run_stopping [OF assms(1-4)] assms(5,6) by (auto simp: launch_pressed_def)
  then show ?thesis by (auto simp: spawned_def list_all_iff no_launch_def)
qed


definition example_stopping :: system where
  "example_stopping = launched ((example_thread [example_state\<lparr>ps_desired_intent := \<lparr> pi_intent = INTENT_STOP, pi_data = 0 \<rparr>\<rparr>])
     \<lparr>th_num_entries := 1, th_cur_entries := [zero_entry\<lparr>en_state := Some 0\<rparr>], th_exit := True\<rparr>) example_ui"

lemma example_stopping_ok: "stopping example_stopping" "sys_ok (sy_table example_stopping) {} example_stopping"
  by (simp_all add: example_stopping_def stopping_def resigned_def launched_def example_thread_def sys_ok_def table_ok_def
      rows_ok_def attached_def pids_def example_state_def example_ui_def)

text \<open>A system on which every process is a zombie until it is waited for, and a table whose process has ended.\<close>

definition zombie_kernel :: kernel where
  "zombie_kernel = quiet_kernel\<lparr>k_waitpid := (\<lambda>h p. if Waitpid p p \<in> set h then 0 else p), k_fuel := 2\<rparr>"

lemma zombie_tame: "tame zombie_kernel"
proof -
  have "\<exists>n < 2. \<not> 0 < k_waitpid zombie_kernel (waited zombie_kernel p h n) p" for h p
  proof (cases "Waitpid p p \<in> set h")
    case True
    then show ?thesis by (intro exI [of _ 0]) (simp add: zombie_kernel_def)
  next
    case False
    then show ?thesis by (intro exI [of _ 1]) (simp add: zombie_kernel_def)
  qed
  then show ?thesis by (simp add: tame_def zombie_kernel_def quiet_kernel_def)
qed

definition example_ended :: system where
  "example_ended = launched ((example_thread [example_state\<lparr>ps_pid := 7, ps_sample_ctxt := Some zero_sampling_data,
     ps_desired_intent := \<lparr> pi_intent = INTENT_STOP, pi_data = 0 \<rparr>\<rparr>])
     \<lparr>th_num_entries := 1, th_cur_entries := [zero_entry\<lparr>en_state := Some 0\<rparr>], th_exit := True\<rparr>) example_ui"


theorem no_launch_after_quit_witness:
  "\<exists>s' w'. run_system quiet_kernel (example_session 1) [Status_thread, Status_thread] example_stopping start_world = (Ret s', w')
     \<and> spawned (new_events start_world w') = {}"
proof -
  let ?t = "sy_table example_stopping"
  obtain cur prev w1 where i: "initialize_entries quiet_kernel 1 0 ?t start_world = (Ret (cur, prev), w1)"
    using initialize_entries_ok [of 0 ?t 1 quiet_kernel start_world]
    by (auto simp: example_stopping_def launched_def example_thread_def)
  have len: "se_total_states (example_session 1) = length ?t"
    by (simp add: example_session_def example_stopping_def launched_def example_thread_def)
  let ?w2 = "w1\<lparr>trace := (trace w1 @ [Mutex_lock]) @ [Mutex_unlock]\<rparr>"
  obtain s' where r: "run_system quiet_kernel (example_session 1) [Status_thread, Status_thread] example_stopping start_world = (Ret s', ?w2)"
    using i by (simp add: system_step_def thread_step_def example_stopping_def launched_def example_thread_def
        with_lock_def io_simps)
  have "emits (\<lambda>e. (\<exists>t. e = Time t) \<or> (\<exists>p s b. e = Kill p s b)) (initialize_entries quiet_kernel 1 0 ?t)"
    by (auto simp: example_stopping_def launched_def example_thread_def initialize_screen_entry_def update_screen_entry_def
        fiveman_process_state_current_activity_def fiveman_process_state_is_alive_def fiveman_process_state_lifetime_def
        intro!: emits_intros)
  from emitsD [OF this i] have "Getch c \<notin> set (trace w1)" for c by (auto simp: start_world_def list_all_iff)
  then have "Getch (key CHR ''l'') \<notin> set (new_events start_world ?w2)"
    by (simp add: new_events_def start_world_def)
  with no_launch_after_quit [OF r example_stopping_ok len] r show ?thesis
    by (auto simp: launch_pressed_def example_stopping_def launched_def)
qed

end
