(* ===== verification/Fiveman_Shutdown.thy ===== *)
theory Fiveman_Shutdown
  imports Fiveman_Interleaving
begin

text \<open>
  The end of a session over the step relation: when the loop of the screen comes to its end, and what
  it leaves behind when the status thread is in the middle of a walk.
\<close>

section \<open>Frames that can be drawn\<close>

text \<open>A row whose entry is in the table, has a name and a command and counters below \<open>2^63\<close>.\<close>

definition drawable_row :: "process_table \<Rightarrow> fiveman_ncurses_screen_entry \<Rightarrow> bool" where
  "drawable_row table e \<longleftrightarrow> (\<exists>row name cmd. en_state e = Some row \<and> row < length table
     \<and> instr_name (ps_instruction (table ! row)) = Some name \<and> instr_exec (ps_instruction (table ! row)) = Some cmd
     \<and> small_sample (en_sample e))"

definition drawable :: "fiveman_status_thread \<Rightarrow> ui \<Rightarrow> bool" where
  "drawable th u \<longleftrightarrow> th_num_entries th \<le> length (th_cur_entries th)
     \<and> (\<forall>i < th_num_entries th. drawable_row (th_table th) (th_cur_entries th ! i))
     \<and> (\<exists>maxy maxx. ui_extents u = update_screen_extents maxy maxx)"

lemma draw_screen_entry_returns:
  "entry_cells k table e ext w = (Ret cells, v) \<Longrightarrow> \<exists>w'. draw_screen_entry k table e y h ext w = (Ret (), w')"
  by (cases h) (simp_all add: draw_screen_entry_def io_simps draw_cells_run)

lemma draw_entries_returns:
  assumes "ui_extents u = update_screen_extents maxy maxx"
  shows "\<forall>i \<in> set is. i < length (th_cur_entries th) \<and> drawable_row (th_table th) (th_cur_entries th ! i) \<Longrightarrow>
    \<exists>w'. draw_entries k th u is w = (Ret (), w')"
proof (induction "is" arbitrary: w)
  case (Cons i "is")
  let ?w1 = "w\<lparr>trace := trace w @ [Mutex_lock]\<rparr>"
  obtain row name cmd where row: "en_state (th_cur_entries th ! i) = Some row" "row < length (th_table th)"
    "instr_name (ps_instruction (th_table th ! row)) = Some name" "instr_exec (ps_instruction (th_table th ! row)) = Some cmd"
    "small_sample (en_sample (th_cur_entries th ! i))" and i: "i < length (th_cur_entries th)"
    using Cons.prems by (auto simp: drawable_row_def)
  obtain cells w2 where "entry_cells k (th_table th) (th_cur_entries th ! i) (ui_extents u) ?w1 = (Ret cells, w2)"
    using entry_cells_run [OF row] unfolding assms by blast
  then obtain w3 where "draw_screen_entry k (th_table th) (th_cur_entries th ! i) (2 + int i)
      (ui_highlighted_row u = int i) (ui_extents u) ?w1 = (Ret (), w3)"
    using draw_screen_entry_returns by blast
  then have "with_lock (draw_screen_entry k (th_table th) (th_cur_entries th ! i) (2 + int i)
      (ui_highlighted_row u = int i) (ui_extents u)) w = (Ret (), w3\<lparr>trace := trace w3 @ [Mutex_unlock]\<rparr>)"
    by (simp add: with_lock_def io_simps)
  moreover obtain w' where "draw_entries k th u is (w3\<lparr>trace := trace w3 @ [Mutex_unlock]\<rparr>) = (Ret (), w')"
    using Cons.IH [of "w3\<lparr>trace := trace w3 @ [Mutex_unlock]\<rparr>"] Cons.prems by auto
  ultimately show ?case using i by (simp add: io_run)
qed (simp add: io_run)

lemma draw_frame_returns:
  assumes "drawable th u"
  shows "\<exists>u' w'. draw_frame k procfile directory th u w = (Ret u', w') \<and> ui_is_terminating u' = ui_is_terminating u
    \<and> ui_term_issued_at u' = ui_term_issued_at u \<and> ui_highlighted_row u' = ui_highlighted_row u
    \<and> (\<exists>maxy maxx. ui_extents u' = update_screen_extents maxy maxx)"
proof -
  obtain max_row max_col where g: "k_getmaxyx k (trace w) = (max_row, max_col)" by fastforce
  define redraw where "redraw = (max_row \<noteq> ui_max_row u \<or> max_col \<noteq> ui_max_col u)"
  let ?u0 = "u\<lparr>ui_max_row := max_row, ui_max_col := max_col\<rparr>"
  define u1 where "u1 = (if redraw then ?u0\<lparr>ui_extents := update_screen_extents max_row max_col\<rparr> else ?u0)"
  let ?w1 = "w\<lparr>trace := trace w @ [Getmaxyx (max_row, max_col)]\<rparr>"
  obtain maxy maxx where ext: "ui_extents u1 = update_screen_extents maxy maxx"
    using assms by (cases redraw) (auto simp: u1_def drawable_def)
  have rows: "\<forall>i \<in> set [0..<th_num_entries th]. i < length (th_cur_entries th) \<and> drawable_row (th_table th) (th_cur_entries th ! i)"
    using assms by (auto simp: drawable_def)
  obtain w2 where w2: "io_when redraw (io_then (curses Clear) (io_then (draw_headers (ui_extents u1) 1)
      (draw_ui_text procfile directory max_row max_col))) ?w1 = (Ret (), w2)"
    by (cases redraw) (auto simp: io_simps draw_headers_def draw_cells_run)
  obtain w3 where w3: "draw_entries k th u1 [0..<th_num_entries th] w2 = (Ret (), w3)"
    using draw_entries_returns [OF ext rows] by blast
  have "draw_frame k procfile directory th u w = (Ret u1, w3\<lparr>trace := trace w3 @ [Curses Refresh]\<rparr>)"
    by (simp add: draw_frame_def sys_getmaxyx_def sys_call_def io_run(1,3,4) sys_run Let_def g
        redraw_def [symmetric] u1_def [symmetric] w2 w3 del: disj_not1)
  moreover have "ui_is_terminating u1 = ui_is_terminating u" "ui_term_issued_at u1 = ui_term_issued_at u"
    "ui_highlighted_row u1 = ui_highlighted_row u"
    by (simp_all add: u1_def)
  ultimately show ?thesis using ext by blast
qed

text \<open>A key that does not call the pager is handled without fail.\<close>

lemma handle_key_returns:
  assumes "c \<noteq> key CHR ''o''" "c \<noteq> key CHR ''e''" "0 \<le> ui_highlighted_row u" "ui_highlighted_row u < int (length (th_table th))"
  shows "\<exists>th' u' w'. handle_key k fork n c th u w = (Ret (th', u'), w')"
  using assms by (auto simp: handle_key_def with_lock_def update_selected_def io_simps Let_def)

lemma getch_returns: "\<exists>c w'. sys_getch k w = (Ret c, w') \<and> c = k_getch k (trace w)"
  by (auto simp: sys_getch_def sys_call_def handle_sigint_def io_simps Let_def)

section \<open>The loop ends\<close>

text \<open>The clock has passed the 100 seconds since the request, by less than \<open>int\<close> can hold.\<close>

definition expired :: "kernel \<Rightarrow> ui \<Rightarrow> bool" where
  "expired k u \<longleftrightarrow> (\<forall>h. ui_term_issued_at u + term_timeout \<le> k_time k h \<and> k_time k h < ui_term_issued_at u + 2 ^ 31)"

lemma check_expired:
  assumes "ui_is_terminating u" "expired k u"
  shows "\<exists>w'. check_termination k th u w = (Ret (), w') \<and> exit_fiveman_immediately w'"
proof -
  obtain n es where na: "fiveman_process_state_table_num_alive k (th_table th) (w\<lparr>trace := trace w @ [Mutex_lock]\<rparr>)
      = (Ret n, w\<lparr>trace := (trace w @ [Mutex_lock]) @ es\<rparr>)"
    using num_alive_run [of k "th_table th" "w\<lparr>trace := trace w @ [Mutex_lock]\<rparr>"] by auto
  have late: "term_timeout \<le> int32 (k_time k h - ui_term_issued_at u)" for h
  proof -
    have "term_timeout \<le> k_time k h - ui_term_issued_at u" "k_time k h - ui_term_issued_at u < 2 ^ 31"
      using assms(2) by (simp_all add: expired_def algebra_simps)
    moreover have "int32 (k_time k h - ui_term_issued_at u) = k_time k h - ui_term_issued_at u"
      using calculation by (intro int32_id) (simp_all add: term_timeout_def)
    ultimately show ?thesis by simp
  qed
  show ?thesis
    using assms(1) na late by (cases "0 < n") (simp_all add: check_termination_def with_lock_def io_simps table_signal_run Let_def)
qed

text \<open>Five steps of the screen loop from the head of \<open>for(;;)\<close>, with nobody else between them, are its iteration.\<close>

lemma screen_steps_iteration:
  assumes "sy_ui_pc s = Drawing"
  shows "run_system k se (replicate 5 Screen_loop) s =
    io_bind (draw_iteration k (se_procfile se) (se_directory se) (se_total_states se) (se_fork se) (sy_thread s) (sy_ui s))
      (\<lambda>(stop, th, u). io_return (s\<lparr>sy_thread := th, sy_ui := u, sy_ui_pc := (if stop then Left else Drawing)\<rparr>))"
proof -
  have five: "replicate 5 Screen_loop = [Screen_loop, Screen_loop, Screen_loop, Screen_loop, Screen_loop]"
    by (simp add: numeral_eq_Suc)
  show ?thesis
    unfolding five using assms
    by (intro ext) (simp add: draw_iteration_def system_step_def ui_step_def io_run(1,3,4,6) io_bind_assoc
        split: prod.split res.split)
qed

lemma expired_loop_ends:
  assumes "sy_ui_pc s = Drawing" "ui_is_terminating (sy_ui s)" "expired k (sy_ui s)" "drawable (sy_thread s) (sy_ui s)"
    and "0 \<le> ui_highlighted_row (sy_ui s)" "ui_highlighted_row (sy_ui s) < int (length (sy_table s))"
    and "\<And>h. k_getch k h \<noteq> key CHR ''o'' \<and> k_getch k h \<noteq> key CHR ''e''"
  shows "\<exists>s' w'. run_system k se (replicate 5 Screen_loop) s w = (Ret s', w') \<and> sy_ui_pc s' = Left"
proof -
  obtain u1 w1 where f: "draw_frame k (se_procfile se) (se_directory se) (sy_thread s) (sy_ui s) w = (Ret u1, w1)"
    "ui_is_terminating u1 = ui_is_terminating (sy_ui s)" "ui_term_issued_at u1 = ui_term_issued_at (sy_ui s)"
    "ui_highlighted_row u1 = ui_highlighted_row (sy_ui s)"
    using draw_frame_returns [OF assms(4)] by blast
  obtain c w2 where g: "sys_getch k w1 = (Ret c, w2)" "c = k_getch k (trace w1)" using getch_returns by blast
  obtain th u2 w3 where h: "handle_key k (se_fork se) (se_total_states se) c (sy_thread s) u1 w2 = (Ret (th, u2), w3)"
    using handle_key_returns assms(5-7) f(4) g(2) by metis
  have "ui_is_terminating u2" "expired k u2"
    using handle_key_Ret [OF h] f(2,3) assms(2,3) by (simp_all add: expired_def)
  from check_expired [OF this] obtain w4 where t: "check_termination k th u2 w3 = (Ret (), w4)" "exit_fiveman_immediately w4"
    by blast
  have "draw_iteration k (se_procfile se) (se_directory se) (se_total_states se) (se_fork se) (sy_thread s) (sy_ui s) w
      = (Ret (True, th, u2), w4)"
    using f(1) g(1) h t by (simp add: draw_iteration_def io_run)
  then show ?thesis unfolding screen_steps_iteration [OF assms(1)] by (simp add: io_run)
qed

section \<open>A launch after the end\<close>

definition idle_ui :: ui where
  "idle_ui = example_ui\<lparr>ui_is_terminating := False, ui_term_issued_at := 0\<rparr>"

lemma run_system_append: "run_system k se (as @ bs) s = io_bind (run_system k se as s) (run_system k se bs)"
proof (induction as arbitrary: s)
  case (Cons a as)
  have "run_system k se (as @ bs) = (\<lambda>s. io_bind (run_system k se as s) (run_system k se bs))" by (rule ext) (rule Cons.IH)
  then show ?case by (simp add: io_bind_assoc)
qed simp

lemma quiet_deed: "targets {} e \<Longrightarrow> no_launch e \<Longrightarrow> \<not> is_deed e"
  by (cases e) (simp_all add: is_deed_def no_launch_def)

lemma idle_frame:
  assumes "drawable th u" "pids (th_table th) = {}"
  shows "\<exists>u' w'. draw_frame k pf d th u w = (Ret u', w') \<and> ui_is_terminating u' = ui_is_terminating u
    \<and> ui_highlighted_row u' = ui_highlighted_row u \<and> drawable th u' \<and> deeds (trace w') = deeds (trace w)
    \<and> exit_fiveman_immediately w' = exit_fiveman_immediately w"
proof -
  obtain u' w' where f: "draw_frame k pf d th u w = (Ret u', w')" "ui_is_terminating u' = ui_is_terminating u"
    "ui_highlighted_row u' = ui_highlighted_row u" "\<exists>maxy maxx. ui_extents u' = update_screen_extents maxy maxx"
    using draw_frame_returns [OF assms(1)] by blast
  have kn: "knows (\<lambda>p. p \<in> pids (th_table th)) (th_table th)" by (auto simp: knows_def pids_def)
  obtain es where es: "trace w' = trace w @ es" "list_all (targets (pids (th_table th))) es"
    using emitsD [OF own.draw_frame_calls [OF kn] f(1)] by blast
  obtain fs where fs: "trace w' = trace w @ fs" "list_all no_launch fs"
    using emitsD [OF launching.draw_frame_calls f(1)] by (auto simp: knows_def)
  have "fs = es" using es(1) fs(1) by simp
  with es(2) fs(2) assms(2) quiet_deed have "deeds es = []" by (auto simp: deeds_def filter_empty_conv list_all_iff)
  moreover have "drawable th u'" using assms(1) f(4) by (simp add: drawable_def)
  ultimately show ?thesis using f es keepsD [OF immediately.keeps_frame f(1)] by (intro exI [of _ u'] exI [of _ w']) simp
qed

lemma deeds_quiet [simp]:
  "deeds (Mutex_lock # es) = deeds es" "deeds (Mutex_unlock # es) = deeds es" "deeds (Getch c # es) = deeds es"
  by (simp_all add: deeds_def is_deed_def)

text \<open>An iteration of the screen while nobody has been launched: with no key pressed nothing is done, and during a
  shutdown the loop is left.\<close>

lemma idle_iteration:
  assumes dr: "drawable th u" and none: "list_all (\<lambda>ps. \<not> 0 < ps_pid ps) (th_table th)"
    and imm: "\<not> exit_fiveman_immediately w"
  shows "\<exists>u' w1 w'. draw_frame quiet_kernel pf d th u w = (Ret u', w1) \<and> sys_getch quiet_kernel w1 = (Ret 0, w')
     \<and> handle_key quiet_kernel fork n 0 th u' w' = (Ret (th, u'), w')
     \<and> check_termination quiet_kernel th u' w' = (Ret (),
          if ui_is_terminating u then w'\<lparr>exit_fiveman_immediately := True, trace := trace w' @ [Mutex_lock, Mutex_unlock]\<rparr> else w')
     \<and> ui_is_terminating u' = ui_is_terminating u \<and> drawable th u' \<and> deeds (trace w') = deeds (trace w)
     \<and> \<not> exit_fiveman_immediately w' \<and> ui_highlighted_row u' = ui_highlighted_row u"
proof -
  have "pids (th_table th) = {}" using none by (auto simp: pids_def list_all_iff)
  from idle_frame [OF dr this] obtain u' w1 where f: "draw_frame quiet_kernel pf d th u w = (Ret u', w1)"
    "ui_is_terminating u' = ui_is_terminating u" "drawable th u'" "deeds (trace w1) = deeds (trace w)"
    "exit_fiveman_immediately w1 = exit_fiveman_immediately w" "ui_highlighted_row u' = ui_highlighted_row u" by blast
  let ?w' = "w1\<lparr>trace := trace w1 @ [Getch 0]\<rparr>"
  have g: "sys_getch quiet_kernel w1 = (Ret 0, ?w')"
    by (simp add: sys_getch_def sys_call_def quiet_kernel_def io_simps)
  have h: "handle_key quiet_kernel fork n 0 th u' ?w' = (Ret (th, u'), ?w')"
    by (simp add: handle_key_def key_numbers KEY_UP_def KEY_DOWN_def io_run)
  have "num_alive_from quiet_kernel ts m v = (Ret m, v)" if "list_all (\<lambda>ps. \<not> 0 < ps_pid ps) ts" for ts m v
    using that by (induction ts) (simp_all add: io_simps)
  then have t: "check_termination quiet_kernel th u' ?w' = (Ret (),
      if ui_is_terminating u then ?w'\<lparr>exit_fiveman_immediately := True, trace := trace ?w' @ [Mutex_lock, Mutex_unlock]\<rparr> else ?w')"
    using f(2) none by (simp add: check_termination_def with_lock_def fiveman_process_state_table_num_alive_def io_simps)
  from f g h t imm show ?thesis by (intro exI [of _ u'] exI [of _ w1] exI [of _ ?w']) simp
qed

text \<open>What is left of the cycle for an entry that is to be started: it is launched, sampled and published.\<close>

lemma late_cycle:
  assumes "sy_pc s = Converging 0" "sy_table s = [ps]" "length (sy_rows s) = 1" "th_exit (sy_thread s)"
    and "ps_stdout ps = Some out" "ps_stderr ps = Some err" "ps_pid ps = 0" "pi_intent (ps_intent ps) = INTENT_START"
  shows "\<exists>s' w' q. run_thread quiet_kernel 9 s w = (Ret s', w') \<and> sy_pc s' = Finished \<and> map ps_pid (sy_table s') = [7]
    \<and> deeds (trace w') = deeds (trace w) @ [Spawn q (Inr 7)]"
proof -
  let ?d = "th_directory (sy_thread s)"
  let ?ps = "ps\<lparr>ps_stdout_stat := zero_stat, ps_stderr_stat := zero_stat\<rparr>"
  let ?w0 = "w\<lparr>trace := (trace w @ [Stat (Some out) (Inr zero_stat)]) @ [Stat (Some err) (Inr zero_stat)]\<rparr>"
  obtain p w1 where start: "fiveman_process_state_start quiet_kernel ?ps ?d ?w0 = (Ret p, w1)" "ps_pid p = 7"
    using quiet_start [of ?ps out err ?d ?w0] assms by auto
  have conv: "fiveman_process_state_converge quiet_kernel ps ?d w
      = (Ret (p\<lparr>ps_last_state_change := 1000\<rparr>), w1\<lparr>trace := trace w1 @ [Time 1000]\<rparr>)"
    using start assms by (simp add: fiveman_process_state_converge_def stat_output_def io_simps Let_def quiet_kernel_def
        fiveman_process_state_converge_start_def touch_state_change_def)
  from converge_run [OF conv] obtain es where es: "trace w1 @ [Time 1000] = trace w @ es"
    "performs quiet_kernel ?d (action_for INTENT_START (pi_data (ps_intent ps)) (found_alive es)) ps es (p\<lparr>ps_last_state_change := 1000\<rparr>)"
    "ps_intent p = ps_intent ps"
    using assms(8) by auto
  have launch: "\<exists>q. deeds es = [Spawn q (Inr 7)]"
    using es(2) start(2) assms(7) by (auto simp: performs_def action_for_def split: if_splits)
  then obtain q where q: "deeds es = [Spawn q (Inr 7)]" by blast
  have nine: "(9::nat) = Suc (Suc (Suc (Suc (Suc (Suc (Suc (Suc (Suc 0))))))))" by simp
  have k7: "\<And>h. k_kill quiet_kernel h 7 0 = False" "\<And>h. k_time quiet_kernel h = 1000" by (simp_all add: quiet_kernel_def)
  obtain s' w' where run: "run_thread quiet_kernel 9 s w = (Ret s', w')" "sy_pc s' = Finished" "map ps_pid (sy_table s') = [7]"
    "deeds (trace w') = deeds (trace w1 @ [Time 1000])"
    unfolding nine using assms conv start(2) es(3)
    by (simp add: thread_step_def walk_entries_def update_entry_def sample_entry_def io_run(1,3,4) k7
        fiveman_process_state_child_process_status_def fiveman_process_state_is_alive_def sys_run
        update_screen_entry_def fiveman_process_state_current_activity_def fiveman_process_state_lifetime_def
        with_lock_def)
  have "deeds (trace w') = deeds (trace w) @ [Spawn q (Inr 7)]" unfolding run(4) es(1) using q by simp
  then show ?thesis using run(1-3) by (intro exI [of _ s'] exI [of _ w'] exI [of _ q]) simp
qed

lemma start_of_cycle:
  "\<exists>cur w. run_system quiet_kernel se (replicate 4 Status_thread) (launched example_running u) start_world
     = (Ret ((launched example_running u)\<lparr>sy_rows := cur, sy_pc := Converging 0\<rparr>), w)
     \<and> length cur = 1 \<and> deeds (trace w) = [] \<and> \<not> exit_fiveman_immediately w"
proof -
  have four: "replicate 4 Status_thread = [Status_thread, Status_thread, Status_thread, Status_thread]"
    by (simp add: numeral_eq_Suc)
  have refl: "fiveman_process_state_table_reflect_desired_intent [example_state] = [example_state]"
    by (simp add: fiveman_process_state_table_reflect_desired_intent_def fiveman_process_state_reflect_desired_intent_def
        example_state_def)
  have reap: "fiveman_process_state_reap_zombie_processes k example_state w = (Ret example_state, w)" for k w
    by (simp add: fiveman_process_state_reap_zombie_processes_def example_state_def io_simps)
  show ?thesis
    unfolding four
    by (simp add: system_step_def thread_step_def launched_def example_running_def example_thread_def refl reap
        initialize_screen_entry_def update_screen_entry_def fiveman_process_state_current_activity_def
        fiveman_process_state_is_alive_def fiveman_process_state_lifetime_def with_lock_def walk_entries_def
        update_entry_def set_table_def io_simps start_world_def quiet_kernel_def)
qed

lemma example_drawable: "drawable example_running idle_ui"
  unfolding drawable_def drawable_row_def
  by (auto simp: example_running_def example_thread_def example_state_def idle_ui_def example_ui_def
      zero_entry_def zero_sample_def small_sample_def)

text \<open>SIGINT before the two tests at the end of an iteration, and one more iteration: with nobody launched the
  shutdown is over at once.\<close>

definition quit_at_once :: "actor list" where
  "quit_at_once = replicate 4 Screen_loop @ [Signal_int, Screen_loop] @ replicate 5 Screen_loop"

definition told_to_stop :: "fiveman_status_thread \<Rightarrow> fiveman_status_thread" where
  "told_to_stop th = th\<lparr>th_table := fiveman_process_state_table_desires_intent (th_table th) INTENT_STOP\<rparr>"

lemma told_to_stop_idle:
  assumes "drawable th u" "list_all (\<lambda>ps. \<not> 0 < ps_pid ps) (th_table th)" "ui_extents u' = ui_extents u"
  shows "drawable (told_to_stop th) u'" "list_all (\<lambda>ps. \<not> 0 < ps_pid ps) (th_table (told_to_stop th))"
proof -
  have row: "drawable_row (th_table (told_to_stop th)) e" if "drawable_row (th_table th) e" for e
    using that by (auto simp: drawable_row_def told_to_stop_def fiveman_process_state_table_desires_intent_def
        fiveman_process_state_desires_intent_def)
  with assms(1,3) show "drawable (told_to_stop th) u'"
    by (simp add: drawable_def) (simp add: told_to_stop_def)
  show "list_all (\<lambda>ps. \<not> 0 < ps_pid ps) (th_table (told_to_stop th))"
    using assms(2) by (simp add: told_to_stop_def list_all_iff fiveman_process_state_table_desires_intent_def
        fiveman_process_state_desires_intent_def)
qed

lemma quit_while_idle:
  assumes pc: "sy_ui_pc s = Drawing" and live: "\<not> ui_is_terminating (sy_ui s)" and dr: "drawable (sy_thread s) (sy_ui s)"
    and none: "list_all (\<lambda>ps. \<not> 0 < ps_pid ps) (sy_table s)" and imm: "\<not> exit_fiveman_immediately w"
  shows "\<exists>u w'. run_system quiet_kernel se quit_at_once s w
        = (Ret (s\<lparr>sy_thread := told_to_stop (sy_thread s), sy_ui := u, sy_ui_pc := Left\<rparr>), w')
     \<and> run_until quiet_kernel se screen_left what quit_at_once s w
        = (Ret (s\<lparr>sy_thread := told_to_stop (sy_thread s), sy_ui := u, sy_ui_pc := Left\<rparr>), w')
     \<and> deeds (trace w') = deeds (trace w) \<and> ui_highlighted_row u = ui_highlighted_row (sy_ui s)"
proof -
  let ?k = quiet_kernel and ?th = "sy_thread s"
  obtain u5 w5 w6 where a: "draw_frame ?k (se_procfile se) (se_directory se) ?th (sy_ui s) w = (Ret u5, w5)"
    "sys_getch ?k w5 = (Ret 0, w6)" "handle_key ?k (se_fork se) (se_total_states se) 0 ?th u5 w6 = (Ret (?th, u5), w6)"
    "check_termination ?k ?th u5 w6 = (Ret (), w6)" "drawable ?th u5" "deeds (trace w6) = deeds (trace w)"
    "\<not> exit_fiveman_immediately w6" "ui_highlighted_row u5 = ui_highlighted_row (sy_ui s)"
    using idle_iteration [OF dr none imm, of "se_procfile se" "se_directory se" "se_fork se" "se_total_states se"] live
    by auto
  let ?u2 = "u5\<lparr>ui_term_issued_at := 1000, ui_is_terminating := True\<rparr>"
  let ?w2 = "w6\<lparr>exit_fiveman := False, trace := trace w6 @ [Mutex_lock, Time 1000, Mutex_unlock]\<rparr>"
  have quiet: "k_time ?k h = 1000" for h by (simp add: quiet_kernel_def)
  have told: "drawable (told_to_stop ?th) ?u2" "list_all (\<lambda>ps. \<not> 0 < ps_pid ps) (th_table (told_to_stop ?th))"
    by (rule told_to_stop_idle [OF a(5) none], simp)+
  have "\<not> exit_fiveman_immediately ?w2" using a(7) by simp
  from idle_iteration [OF told this, of "se_procfile se" "se_directory se" "se_fork se" "se_total_states se"] a(6)
  obtain u7 w7 w8 where b: "draw_frame ?k (se_procfile se) (se_directory se) (told_to_stop ?th) ?u2 ?w2 = (Ret u7, w7)"
    "sys_getch ?k w7 = (Ret 0, w8)"
    "handle_key ?k (se_fork se) (se_total_states se) 0 (told_to_stop ?th) u7 w8 = (Ret (told_to_stop ?th, u7), w8)"
    "check_termination ?k (told_to_stop ?th) u7 w8
      = (Ret (), w8\<lparr>exit_fiveman_immediately := True, trace := trace w8 @ [Mutex_lock, Mutex_unlock]\<rparr>)"
    "deeds (trace w8) = deeds (trace w)" "ui_highlighted_row u7 = ui_highlighted_row u5" by auto
  have sched: "quit_at_once = [Screen_loop, Screen_loop, Screen_loop, Screen_loop, Signal_int, Screen_loop,
      Screen_loop, Screen_loop, Screen_loop, Screen_loop, Screen_loop]"
    by (simp add: quit_at_once_def numeral_eq_Suc)
  let ?w9 = "w8\<lparr>exit_fiveman_immediately := True, trace := trace w8 @ [Mutex_lock, Mutex_unlock]\<rparr>"
  have "run_system ?k se quit_at_once s w = (Ret (s\<lparr>sy_thread := told_to_stop ?th, sy_ui := u7, sy_ui_pc := Left\<rparr>), ?w9)"
    unfolding sched using a b pc
    by (simp add: system_step_def ui_step_def io_run handle_sigint_def request_exit_run quiet Let_def
        told_to_stop_def [symmetric])
  moreover have "run_until ?k se screen_left what quit_at_once s w
      = (Ret (s\<lparr>sy_thread := told_to_stop ?th, sy_ui := u7, sy_ui_pc := Left\<rparr>), ?w9)"
    unfolding sched using a b pc
    by (simp add: system_step_def ui_step_def io_run handle_sigint_def request_exit_run quiet Let_def
        told_to_stop_def [symmetric])
  moreover have "deeds (trace ?w9) = deeds (trace w)" "ui_highlighted_row u7 = ui_highlighted_row (sy_ui s)"
    using a(8) b(5,6) by simp_all
  ultimately show ?thesis by blast
qed

text \<open>The schedule: the status thread is about to converge its only entry, not launched yet; then SIGINT asks
  for the end, the screen starts the shutdown, finds nothing alive in its next iteration, and leaves.\<close>

definition quit_during_start :: "actor list" where
  "quit_during_start = replicate 4 Status_thread @ quit_at_once"

lemma quit_run:
  "\<exists>s w. run_system quiet_kernel (example_session 1) quit_during_start (launched example_running idle_ui) start_world = (Ret s, w)
     \<and> sy_ui_pc s = Left \<and> sy_pc s = Converging 0 \<and> length (sy_rows s) = 1 \<and> deeds (trace w) = []
     \<and> sy_table s = [fiveman_process_state_desires_intent example_state INTENT_STOP]"
proof -
  let ?k = quiet_kernel and ?se = "example_session 1" and ?th = example_running
  obtain cur w4 where run4: "run_system ?k ?se (replicate 4 Status_thread) (launched ?th idle_ui) start_world
     = (Ret ((launched ?th idle_ui)\<lparr>sy_rows := cur, sy_pc := Converging 0\<rparr>), w4)" (is "_ = (Ret ?s4, _)")
    "length cur = 1" "deeds (trace w4) = []" "\<not> exit_fiveman_immediately w4"
    using start_of_cycle by blast
  have "sy_ui_pc ?s4 = Drawing" "\<not> ui_is_terminating (sy_ui ?s4)" "drawable (sy_thread ?s4) (sy_ui ?s4)"
    "list_all (\<lambda>ps. \<not> 0 < ps_pid ps) (sy_table ?s4)"
    using example_drawable by (simp_all add: launched_def idle_ui_def example_running_def example_thread_def example_state_def)
  from quit_while_idle [OF this run4(4), of ?se "[]"] obtain u w where
    "run_system ?k ?se quit_at_once ?s4 w4 = (Ret (?s4\<lparr>sy_thread := told_to_stop ?th, sy_ui := u, sy_ui_pc := Left\<rparr>), w)"
    "deeds (trace w) = []" using run4(3) by (auto simp: launched_def)
  with run4(1,2) show ?thesis unfolding quit_during_start_def run_system_append
    by (auto simp: io_run(4) launched_def told_to_stop_def example_running_def example_thread_def
        fiveman_process_state_table_desires_intent_def)
qed

section \<open>Whatever is launched late is not signalled\<close>

text \<open>The process groups that are signalled are those of the entries of \<open>T\<close> after \<open>i\<close>.\<close>

definition only_later :: "nat \<Rightarrow> process_table \<Rightarrow> event list \<Rightarrow> bool" where
  "only_later i T es \<longleftrightarrow> (\<forall>p sig. Killpg p sig \<in> set es \<longrightarrow> (\<exists>j. i < j \<and> j < length T \<and> p = ps_pid (T ! j)))"

lemma only_later_append [simp]: "only_later i T (es @ fs) \<longleftrightarrow> only_later i T es \<and> only_later i T fs"
  by (auto simp: only_later_def)

definition no_killpg :: "event \<Rightarrow> bool" where
  "no_killpg e = (case e of Killpg p s \<Rightarrow> False | _ \<Rightarrow> True)"

lemma no_killpg_simps [simp]:
  "no_killpg (Kill p n b)" "no_killpg (Time t)" "no_killpg (Spawn q r)" "no_killpg (Waitpid p x)" "no_killpg (Stat f st)"
  "no_killpg Mutex_lock" "no_killpg Mutex_unlock" "no_killpg (Sleep n)"
  by (simp_all add: no_killpg_def)

lemma sampling_no_killpg: "sampling_event e \<Longrightarrow> no_killpg e"
  by (cases e) (auto simp: sampling_event_def no_killpg_def)

lemma only_later_none: "list_all no_killpg es \<Longrightarrow> only_later i T es"
  by (auto simp: only_later_def list_all_iff no_killpg_def)

lemma sample_entry_no_killpg: "emits no_killpg (sample_entry k i s)"
proof -
  note smp = emits_mono [OF mac.sample_calls sampling_no_killpg]
  show ?thesis
    unfolding sample_entry_def fiveman_process_state_child_process_status_def fiveman_process_state_sample_process_def
      fiveman_process_state_is_alive_def update_screen_entry_def fiveman_process_state_lifetime_def
      fiveman_process_state_current_activity_def
    by (auto intro!: emits_intros smp split: prod.split)
qed

lemma reap_no_killpg: "emits no_killpg (fiveman_process_state_reap_zombie_processes k ps)"
  unfolding fiveman_process_state_reap_zombie_processes_def by (auto intro!: emits_intros)

lemma sigchld_idle: "handle_sigchld k t w = (Ret t', w') \<Longrightarrow> t' = t \<and> (\<exists>es. trace w' = trace w @ es \<and> list_all no_killpg es)"
proof -
  assume run: "handle_sigchld k t w = (Ret t', w')"
  have "emits no_killpg (handle_sigchld k t)"
    unfolding handle_sigchld_def fiveman_process_state_table_reap_zombie_processes_def
    by (auto intro!: emits_intros emits_walk reap_no_killpg split: table_pointer.split)
  moreover have "t' = t"
  proof (cases "application_state_table w")
    case Null_table
    with run show ?thesis by (simp add: handle_sigchld_def io_run)
  next
    case Live_table
    with run have "walk (fiveman_process_state_reap_zombie_processes k) t w = (Ret t', w')"
      by (simp add: handle_sigchld_def io_run fiveman_process_state_table_reap_zombie_processes_def)
    from reaping.walk_pointwise [OF this] show ?thesis by (induction rule: list_all2_induct) auto
  qed
  ultimately show ?thesis using emitsD run by blast
qed

text \<open>A step of anyone but the status thread, once the screen has left its loop.\<close>

lemma idle_actor_step:
  assumes "system_step k se a s w = (Ret s', w')" "sy_ui_pc s = Left" "a \<noteq> Status_thread"
  shows "s' = s \<and> (\<exists>es. trace w' = trace w @ es \<and> list_all no_killpg es)"
proof (cases a)
  case Signal_chld
  with assms(1) obtain t w1 where "handle_sigchld k (sy_table s) w = (Ret t, w1)" "s' = set_table t s" "w' = w1"
    by (auto simp: system_step_def io_run(1) elim!: io_bind_Ret)
  with sigchld_idle show ?thesis by fastforce
qed (use assms in \<open>auto simp: system_step_def ui_step_def handle_sigint_def io_run\<close>)

text \<open>The thread is past the convergence of entry \<open>i\<close>, has been told to end, and the entries it has still to converge
  have the pids of \<open>T\<close>.\<close>

definition beyond :: "nat \<Rightarrow> process_table \<Rightarrow> system \<Rightarrow> bool" where
  "beyond i T s \<longleftrightarrow> th_exit (sy_thread s) \<and> sy_ui_pc s = Left \<and> length (sy_table s) = length T \<and> list_all attached (sy_table s)
     \<and> (case sy_pc s of
          Converging j \<Rightarrow> i < j \<and> (\<forall>m. j \<le> m \<and> m < length T \<longrightarrow> ps_pid (sy_table s ! m) = ps_pid (T ! m))
        | Sampling j \<Rightarrow> True | Publishing \<Rightarrow> True | Finished \<Rightarrow> True | _ \<Rightarrow> False)"

lemma beyond_thread_step:
  assumes run: "thread_step k s w = (Ret s', w')" and b: "beyond i T s"
  shows "beyond i T s' \<and> ps_pid (sy_table s' ! i) = ps_pid (sy_table s ! i)
    \<and> (\<exists>es. trace w' = trace w @ es \<and> only_later i T es)"
proof (cases "sy_pc s")
  case (Converging j)
  with b have j: "i < j" "\<And>m. j \<le> m \<Longrightarrow> m < length T \<Longrightarrow> ps_pid (sy_table s ! m) = ps_pid (T ! m)"
    and len: "length (sy_table s) = length T" by (auto simp: beyond_def)
  from run Converging have "walk_entries (update_entry (\<lambda>ps. fiveman_process_state_converge k ps (th_directory (sy_thread s))))
      Converging (Sampling 0) j s w = (Ret s', w')" by (simp add: thread_step_def)
  then show ?thesis
  proof (cases rule: walk_entries_Ret)
    case (entry s1)
    from entry(2) obtain p where p: "fiveman_process_state_converge k (sy_table s ! j) (th_directory (sy_thread s)) w = (Ret p, w')"
      "s1 = set_table ((sy_table s)[j := p]) s" by (rule update_entry_Ret)
    obtain es where es: "trace w' = trace w @ es" "list_all (own_signal (ps_pid (sy_table s ! j))) es"
      using emitsD [OF converge_own p(1)] by blast
    have "Killpg q sig \<in> set es \<Longrightarrow> q = ps_pid (T ! j)" for q sig
      using es(2) j(2) [of j] entry(1) len by (fastforce simp: list_all_iff)
    then have "only_later i T es" using j(1) entry(1) len unfolding only_later_def by auto
    moreover have "attached p" using converge_same [OF p(1)] b entry(1) by (simp add: beyond_def same_process_def list_all_length)
    then have "list_all attached ((sy_table s)[j := p])" using b by (intro list_all_update) (simp_all add: beyond_def)
    then have "beyond i T s'" using b entry(3) p(2) j Converging by (auto simp: beyond_def)
    ultimately show ?thesis using es(1) entry(3) p(2) j(1) by auto
  next
    case over
    with b show ?thesis by (auto simp: beyond_def only_later_def)
  qed
next
  case (Sampling j)
  from run Sampling have "walk_entries (sample_entry k) Sampling Publishing j s w = (Ret s', w')"
    by (simp add: thread_step_def)
  then show ?thesis
  proof (cases rule: walk_entries_Ret)
    case (entry s1)
    obtain es where es: "trace w' = trace w @ es" "list_all no_killpg es"
      using emitsD [OF sample_entry_no_killpg entry(2)] by blast
    from entry(2) obtain p e w1 where p: "fiveman_process_state_child_process_status k (sy_table s ! j) w = (Ret p, w1)"
      "s1 = (set_table ((sy_table s)[j := p]) s)\<lparr>sy_rows := (sy_rows s)[j := e]\<rparr>" by (rule sample_entry_Ret)
    have "attached (sy_table s ! j)" using b entry(1) by (simp add: beyond_def list_all_length)
    from child_status_Ret [OF p(1) this] have c: "attached p" "ps_pid p = ps_pid (sy_table s ! j)" by simp_all
    have "list_all attached ((sy_table s)[j := p])" using b c(1) by (intro list_all_update) (simp_all add: beyond_def)
    with b entry(3) p(2) have "beyond i T s'" by (simp add: beyond_def)
    moreover have "ps_pid ((sy_table s)[j := p] ! i) = ps_pid (sy_table s ! i)"
      using c(2) entry(1) by (cases "i = j") auto
    ultimately show ?thesis using entry(3) p(2) es by (auto intro: only_later_none)
  next
    case over
    with b show ?thesis by (auto simp: beyond_def only_later_def)
  qed
qed (use run b in \<open>auto simp: thread_step_def beyond_def with_lock_def io_simps only_later_def\<close>)

lemma beyond_run:
  "run_system k se as s w = (Ret s', w') \<Longrightarrow> beyond i T s \<Longrightarrow>
   ps_pid (sy_table s' ! i) = ps_pid (sy_table s ! i) \<and> (\<exists>es. trace w' = trace w @ es \<and> only_later i T es)"
proof (induction as arbitrary: s w)
  case Nil
  then show ?case by (auto simp: io_run only_later_def)
next
  case (Cons a as)
  obtain s1 w1 where one: "system_step k se a s w = (Ret s1, w1)" and rest: "run_system k se as s1 w1 = (Ret s', w')"
    using Cons.prems(1) by (auto elim!: io_bind_Ret)
  have "beyond i T s1 \<and> ps_pid (sy_table s1 ! i) = ps_pid (sy_table s ! i)
      \<and> (\<exists>es. trace w1 = trace w @ es \<and> only_later i T es)"
  proof (cases "a = Status_thread")
    case True
    with one beyond_thread_step Cons.prems(2) show ?thesis by (simp add: system_step_def)
  next
    case False
    with idle_actor_step [OF one] Cons.prems(2) show ?thesis by (auto simp: beyond_def intro: only_later_none)
  qed
  then obtain es where es: "beyond i T s1" "ps_pid (sy_table s1 ! i) = ps_pid (sy_table s ! i)" "trace w1 = trace w @ es" "only_later i T es"
    by blast
  with Cons.IH [OF rest es(1)] show ?case by auto
qed

text \<open>The step that converges entry \<open>i\<close> launches it.\<close>

lemma late_launch_step:
  assumes run: "thread_step k s w = (Ret s', w')" and st: "sy_ui_pc s = Left" "th_exit (sy_thread s)" "sy_pc s = Converging i"
    "i < length (sy_table s)" "pi_intent (ps_intent (sy_table s ! i)) = INTENT_START"
    "0 < ps_pid (sy_table s ! i) \<longrightarrow> (\<forall>h. \<not> k_kill k h (ps_pid (sy_table s ! i)) 0)" "list_all attached (sy_table s)"
  shows "beyond i (sy_table s) s' \<and> (\<exists>q es. trace w' = trace w @ es \<and> Spawn q (Inr (ps_pid (sy_table s' ! i))) \<in> set es
    \<and> sp_argv q = [''/bin/sh'', ''-c''] @ (case instr_exec (ps_instruction (sy_table s ! i)) of None \<Rightarrow> [] | Some cmd \<Rightarrow> [cmd])
    \<and> only_later i (sy_table s) es)"
proof -
  let ?p = "sy_table s ! i" and ?d = "th_directory (sy_thread s)"
  from run st(3) have "walk_entries (update_entry (\<lambda>ps. fiveman_process_state_converge k ps ?d)) Converging (Sampling 0) i s w = (Ret s', w')"
    by (simp add: thread_step_def)
  then obtain s1 where s1: "update_entry (\<lambda>ps. fiveman_process_state_converge k ps ?d) i s w = (Ret s1, w')"
    "s' = s1\<lparr>sy_pc := Converging (Suc i)\<rparr>" using st(4) by (cases rule: walk_entries_Ret) auto
  from s1(1) obtain p where p: "fiveman_process_state_converge k ?p ?d w = (Ret p, w')"
    "s1 = set_table ((sy_table s)[i := p]) s" by (rule update_entry_Ret)
  obtain es where es: "trace w' = trace w @ es" "converges k ?d ?p es p" using converge_exact [OF p(1)] by blast
  then obtain out err alive acts where c: "es = Stat (ps_stdout ?p) out # Stat (ps_stderr ?p) err # probe_of ?p alive @ acts"
    "probe_answer k ?p alive"
    "carries_out k ?d (action_for (pi_intent (ps_intent ?p)) (pi_data (ps_intent ?p)) (0 < ps_pid ?p \<and> alive))
       (?p\<lparr>ps_stdout_stat := stat_result out (ps_stdout_stat ?p), ps_stderr_stat := stat_result err (ps_stderr_stat ?p)\<rparr>) acts p"
    unfolding converges_def by blast
  have "\<not> (0 < ps_pid ?p \<and> alive)" using c(2) st(6) by (auto simp: probe_answer_def)
  with c(3) st(5) have l: "launches k ?d (?p\<lparr>ps_stdout_stat := stat_result out (ps_stdout_stat ?p),
      ps_stderr_stat := stat_result err (ps_stderr_stat ?p)\<rparr>) acts p"
    by (auto simp: carries_out_def action_for_def Let_def split: if_splits)
  then have "list_all no_killpg acts"
    unfolding launches_def by (auto simp: list_all_iff sampling_no_killpg)
  then have "only_later i (sy_table s) es" unfolding c(1) by (intro only_later_none) (simp add: probe_of_def)
  moreover have "attached p" using converge_same [OF p(1)] st(4,7) by (simp add: same_process_def list_all_length)
  then have "list_all attached ((sy_table s)[i := p])" using st(7) by (intro list_all_update)
  then have "beyond i (sy_table s) s'" using st s1(2) p(2) by (auto simp: beyond_def)
  ultimately show ?thesis using launches_spawns [OF l] es(1) c(1) s1(2) p(2) st(4) by auto
qed

lemma late_run:
  "run_system k se as s w = (Ret s', w') \<Longrightarrow> sy_pc s' = Finished \<Longrightarrow> sy_ui_pc s = Left \<Longrightarrow> th_exit (sy_thread s) \<Longrightarrow>
   sy_pc s = Converging i \<Longrightarrow> i < length (sy_table s) \<Longrightarrow> pi_intent (ps_intent (sy_table s ! i)) = INTENT_START \<Longrightarrow>
   0 < ps_pid (sy_table s ! i) \<longrightarrow> (\<forall>h. \<not> k_kill k h (ps_pid (sy_table s ! i)) 0) \<Longrightarrow> list_all attached (sy_table s) \<Longrightarrow>
   \<exists>q es. trace w' = trace w @ es \<and> Spawn q (Inr (ps_pid (sy_table s' ! i))) \<in> set es
    \<and> sp_argv q = [''/bin/sh'', ''-c''] @ (case instr_exec (ps_instruction (sy_table s ! i)) of None \<Rightarrow> [] | Some cmd \<Rightarrow> [cmd])
    \<and> only_later i (sy_table s) es"
proof (induction as arbitrary: w)
  case Nil
  then show ?case by (simp add: io_run)
next
  case (Cons a as)
  obtain s1 w1 where one: "system_step k se a s w = (Ret s1, w1)" and rest: "run_system k se as s1 w1 = (Ret s', w')"
    using Cons.prems(1) by (auto elim!: io_bind_Ret)
  show ?case
  proof (cases "a = Status_thread")
    case True
    with one have "thread_step k s w = (Ret s1, w1)" by (simp add: system_step_def)
    from late_launch_step [OF this Cons.prems(3-9)] obtain q es where l: "beyond i (sy_table s) s1" "trace w1 = trace w @ es"
      "Spawn q (Inr (ps_pid (sy_table s1 ! i))) \<in> set es"
      "sp_argv q = [''/bin/sh'', ''-c''] @ (case instr_exec (ps_instruction (sy_table s ! i)) of None \<Rightarrow> [] | Some cmd \<Rightarrow> [cmd])"
      "only_later i (sy_table s) es" by blast
    from beyond_run [OF rest l(1)] obtain fs where "ps_pid (sy_table s' ! i) = ps_pid (sy_table s1 ! i)"
      "trace w' = trace w1 @ fs" "only_later i (sy_table s) fs" by blast
    with l show ?thesis by (intro exI [of _ q] exI [of _ "es @ fs"]) simp
  next
    case False
    from idle_actor_step [OF one Cons.prems(3) False] obtain es where i: "s1 = s" "trace w1 = trace w @ es" "list_all no_killpg es"
      by blast
    from Cons.IH [OF rest [unfolded i(1)] Cons.prems(2-9)] obtain q fs where "trace w' = trace w1 @ fs"
      "Spawn q (Inr (ps_pid (sy_table s' ! i))) \<in> set fs"
      "sp_argv q = [''/bin/sh'', ''-c''] @ (case instr_exec (ps_instruction (sy_table s ! i)) of None \<Rightarrow> [] | Some cmd \<Rightarrow> [cmd])"
      "only_later i (sy_table s) fs" by blast
    with i(2) only_later_none [OF i(3)] show ?thesis by (intro exI [of _ q] exI [of _ "es @ fs"]) simp
  qed
qed

lemma run_thread_system: "run_system k se (replicate n Status_thread) s = run_thread k n s"
proof (induction n arbitrary: s)
  case (Suc n)
  have "run_system k se (replicate n Status_thread) = run_thread k n" by (rule ext) (rule Suc.IH)
  then show ?case by (simp add: system_step_def)
qed simp

section \<open>Properties\<close>

text \<open>C8: A shutdown comes to its end. During a shutdown, once the clock has passed the 100 seconds since the
  request, the next iteration of the screen loop leaves it, whatever still answers, if its frame can be
  drawn and the key read is not one that calls the pager.\<close>

theorem shutdown_expires:
  assumes "sy_ui_pc s = Drawing" "ui_is_terminating (sy_ui s)" "expired k (sy_ui s)" "drawable (sy_thread s) (sy_ui s)"
    and "0 \<le> ui_highlighted_row (sy_ui s)" "ui_highlighted_row (sy_ui s) < int (length (sy_table s))"
    and "\<And>h. k_getch k h \<noteq> key CHR ''o'' \<and> k_getch k h \<noteq> key CHR ''e''"
  shows "\<exists>s' w'. run_system k se (replicate 5 Screen_loop) s w = (Ret s', w') \<and> sy_ui_pc s' = Left"
  using assms by (rule expired_loop_ends)

theorem shutdown_expires_witness:
  "\<exists>s' w'. run_system quiet_kernel (example_session 1) (replicate 5 Screen_loop) (launched example_running example_ui) start_world
     = (Ret s', w') \<and> sy_ui_pc s' = Left"
proof (rule shutdown_expires)
  show "drawable (sy_thread (launched example_running example_ui)) (sy_ui (launched example_running example_ui))"
    using example_drawable by (auto simp: launched_def drawable_def idle_ui_def)
qed (simp_all add: launched_def example_ui_def example_running_def example_thread_def expired_def term_timeout_def
    quiet_kernel_def key_numbers)

text \<open>C23: A launch after the end of the screen loop is left behind. When the screen has left its loop and the thread has been told to
  end, but the thread is in its convergence before an entry whose intent is still START and whose process does not
  answer, then in every schedule of the threads and the signal handlers that brings the thread to its end, that entry is launched, its pid
  is the new one, and no process group is signalled but those of entries after it by the pids they had before:
  nothing signals what was launched.\<close>

theorem late_launch_is_left_behind:
  assumes "run_system k se as s w = (Ret s', w')" "sy_pc s' = Finished"
    and "sy_ui_pc s = Left" "th_exit (sy_thread s)" "sy_pc s = Converging i" "i < length (sy_table s)"
    and "pi_intent (ps_intent (sy_table s ! i)) = INTENT_START"
    and "0 < ps_pid (sy_table s ! i) \<longrightarrow> (\<forall>h. \<not> k_kill k h (ps_pid (sy_table s ! i)) 0)"
    and "list_all attached (sy_table s)"
  shows "\<exists>q es. trace w' = trace w @ es \<and> Spawn q (Inr (ps_pid (sy_table s' ! i))) \<in> set es
    \<and> sp_argv q = [''/bin/sh'', ''-c''] @ (case instr_exec (ps_instruction (sy_table s ! i)) of None \<Rightarrow> [] | Some cmd \<Rightarrow> [cmd])
    \<and> (\<forall>p sig. Killpg p sig \<in> set es \<longrightarrow> (\<exists>j. i < j \<and> j < length (sy_table s) \<and> p = ps_pid (sy_table s ! j)))"
  using late_run [OF assms(1-9)] unfolding only_later_def .

theorem late_launch_is_left_behind_witness:
  "\<exists>s w s' w' q. run_system quiet_kernel (example_session 1) quit_during_start (launched example_running idle_ui) start_world
        = (Ret s, w)
    \<and> sy_ui_pc s = Left \<and> sy_pc s = Converging 0
    \<and> run_system quiet_kernel (example_session 1) (replicate 9 Status_thread) (s\<lparr>sy_thread := (sy_thread s)\<lparr>th_exit := True\<rparr>\<rparr>) w
        = (Ret s', w')
    \<and> sy_pc s' = Finished \<and> map ps_pid (sy_table s') = [7]
    \<and> Spawn q (Inr 7) \<in> set (new_events w w') \<and> (\<forall>p sig. Killpg p sig \<notin> set (new_events w w'))"
proof -
  obtain s w where run: "run_system quiet_kernel (example_session 1) quit_during_start (launched example_running idle_ui) start_world
      = (Ret s, w)" "sy_ui_pc s = Left" "sy_pc s = Converging 0" "length (sy_rows s) = 1" "deeds (trace w) = []"
    "sy_table s = [fiveman_process_state_desires_intent example_state INTENT_STOP]"
    using quit_run by blast
  let ?s = "s\<lparr>sy_thread := (sy_thread s)\<lparr>th_exit := True\<rparr>\<rparr>"
  obtain s' w' where r: "run_thread quiet_kernel 9 ?s w = (Ret s', w')" "sy_pc s' = Finished" "map ps_pid (sy_table s') = [7]"
    using late_cycle [of ?s "fiveman_process_state_desires_intent example_state INTENT_STOP" "''/tmp/o''" "''/tmp/e''" w] run
    by (auto simp: fiveman_process_state_desires_intent_def example_state_def zero_intent_def)
  have r9: "run_system quiet_kernel (example_session 1) (replicate 9 Status_thread) ?s w = (Ret s', w')"
    using r(1) by (simp add: run_thread_system)
  have pre: "sy_ui_pc ?s = Left" "th_exit (sy_thread ?s)" "sy_pc ?s = Converging 0" "0 < length (sy_table ?s)"
    "pi_intent (ps_intent (sy_table ?s ! 0)) = INTENT_START"
    "0 < ps_pid (sy_table ?s ! 0) \<longrightarrow> (\<forall>h. \<not> k_kill quiet_kernel h (ps_pid (sy_table ?s ! 0)) 0)"
    "list_all attached (sy_table ?s)"
    using run by (simp_all add: fiveman_process_state_desires_intent_def example_state_def attached_def zero_intent_def)
  obtain q es where es: "trace w' = trace w @ es" "Spawn q (Inr (ps_pid (sy_table s' ! 0))) \<in> set es"
    "\<forall>p sig. Killpg p sig \<in> set es \<longrightarrow> (\<exists>j. 0 < j \<and> j < length (sy_table ?s) \<and> p = ps_pid (sy_table ?s ! j))"
    using late_launch_is_left_behind [OF r9 r(2) pre] by blast
  have seven: "ps_pid (sy_table s' ! 0) = 7" using r(3) by (cases "sy_table s'") auto
  have "\<forall>p sig. Killpg p sig \<notin> set es" using es(3) run(6) by auto
  with es(1,2) seven run(1-3) r9 r(2,3) show ?thesis
    by (intro exI [of _ s] exI [of _ w] exI [of _ s'] exI [of _ w'] exI [of _ q]) simp
qed

end
