(* ===== verification/Fiveman_Globals.thy ===== *)
theory Fiveman_Globals
  imports Fiveman_Interleaving
begin

text \<open>
  The global variables that belong neither to the screen nor to the sampler: the registered table and the
  installed signal actions. The locale states what such a variable is; its lemmas lift it to the steps of
  the running system, so that what \<open>main\<close> sets up before the session still holds after it.
\<close>

locale system_variable = screen_variable +
  assumes immediately_kept [simp]: "f (w\<lparr>exit_fiveman_immediately := b\<rparr>) = f w"
    and authorization_kept [simp]: "f (w\<lparr>myAuthorizationRef := b\<rparr>) = f w"
begin

lemma keeps_sampling [keeps_intros]:
  "keeps f (fiveman_init_sampling k ps)" "keeps f (fiveman_teardown_sampling k ps)"
  "keeps f (fiveman_sample_info k ps prev sample)"
  unfolding fiveman_init_sampling_def authorize_def set_opts_def set_opt_def sys_task_for_pid_def
    fiveman_teardown_sampling_def fiveman_sample_info_def sample_task_def sys_dtrace_work_def
    sys_task_basic_info_def sys_task_thread_times_def Let_def
  by (auto intro!: keeps_intros split: option.split)

lemma keeps_entry [keeps_intros]:
  "keeps f (fiveman_process_state_converge k ps d)" "keeps f (fiveman_process_state_child_process_status k ps)"
  "keeps f (fiveman_process_state_reap_zombie_processes k ps)" "keeps f (fiveman_process_state_signal k ps n)"
  unfolding fiveman_process_state_converge_def stat_output_def fiveman_process_state_converge_none_def
    fiveman_process_state_converge_start_def fiveman_process_state_start_def
    fiveman_process_state_converge_signal_def fiveman_process_state_converge_stop_def fiveman_process_state_stop_def
    fiveman_process_state_signal_def touch_state_change_def fiveman_process_state_child_process_status_def
    fiveman_process_state_sample_process_def fiveman_process_state_reap_zombie_processes_def Let_def
  by (auto intro!: keeps_intros split: FIVEMAN_INTENT.split prod.split option.split sum.split)

lemma keeps_rows [keeps_intros]:
  "keeps f (update_screen_entry k ps e)" "keeps f (initialize_screen_entry k row ps)"
  unfolding initialize_screen_entry_def update_screen_entry_def by (auto intro!: keeps_intros)

lemma keeps_initialize_entries [keeps_intros]: "keeps f (initialize_entries k num row t)"
  by (induction t arbitrary: row) (auto intro!: keeps_intros split: prod.split)

lemma keeps_thread_step: "keeps f (thread_step k s)"
  unfolding thread_step_def walk_entries_def update_entry_def sample_entry_def
  by (auto intro!: keeps_intros split: thread_pc.split prod.split)

lemma keeps_check [keeps_intros]: "keeps f (check_termination k th u)" "keeps f (request_exit k th u)"
proof -
  have alive: "keeps f (num_alive_from k ts n)" for ts n
    by (induction ts arbitrary: n) (auto intro!: keeps_intros)
  have signal: "keeps f (fiveman_process_state_table_signal k ts sg)" for ts sg
    by (induction ts) (auto intro!: keeps_intros)
  show "keeps f (check_termination k th u)" "keeps f (request_exit k th u)"
    unfolding check_termination_def request_exit_def fiveman_process_state_table_num_alive_def Let_def
    by (auto intro!: keeps_intros alive signal)
qed

lemma keeps_ui_step: "keeps f (ui_step k se s)"
  unfolding ui_step_def
  by (auto intro!: keeps_intros keeps_frame keeps_getch keeps_handle_key split: ui_pc.split prod.split)

lemma keeps_system_step: "keeps f (system_step k se a s)"
  unfolding system_step_def handle_sigchld_def handle_sigint_def fiveman_process_state_table_reap_zombie_processes_def
  by (auto intro!: keeps_intros keeps_thread_step keeps_ui_step split: actor.split table_pointer.split)

lemma keeps_run_until [keeps_intros]: "keeps f (run_until k se ended what as s)"
  by (induction as arbitrary: s) (auto intro!: keeps_intros keeps_system_step)

end

interpretation registration: system_variable application_state_table
  by unfold_locales simp_all

interpretation handlers: system_variable dispositions
  by unfold_locales simp_all

end
