(* ===== verification/Fiveman_Options.thy ===== *)
theory Fiveman_Options
  imports Fiveman_Prelude "HOL-Library.Sublist"
begin

text \<open>
  \<open>src/options.c\<close> and the tables of \<open>src/options.h\<close>. What \<open>getopt_long\<close> returns, one pair of option
  character and \<open>optarg\<close> at a time until -1, and the \<open>optind\<close> it leaves, are arguments; so are the
  answer of \<open>getwd\<close> and the \<open>errno\<close> after it. Argument strings contain no NUL.
\<close>

section \<open>Constants\<close>

definition DEFAULT_FILENAME :: string where "DEFAULT_FILENAME = ''Procfile''"
definition DIR_SEPARATOR :: string where "DIR_SEPARATOR = ''/''"
definition DEFAULT_COMMAND :: string where "DEFAULT_COMMAND = ''start''"

text \<open>The table \<open>commands\<close>, which ends with a null name.\<close>

definition commands :: "string option list" where
  "commands = [Some ''start'', None]"

section \<open>Parsing\<close>

text \<open>\<open>strncmp(a, b, n) == 0\<close> on strings without NUL.\<close>

definition strncmp_eq :: "string \<Rightarrow> string \<Rightarrow> nat \<Rightarrow> bool" where
  "strncmp_eq a b n \<longleftrightarrow> take n a = take n b"

record found_options =
  fo_directory :: "string option"
  fo_procfile :: "string option"
  fo_port :: int

fun parse_option :: "char \<times> string \<Rightarrow> found_options \<Rightarrow> found_options res" where
  "parse_option (c, optarg) fo =
     (if c = CHR ''f'' then Ret (fo\<lparr>fo_procfile := Some optarg\<rparr>)
      else if c = CHR ''d'' then Ret (fo\<lparr>fo_directory := Some optarg\<rparr>)
      else if c = CHR ''p'' then
        let found_port = atoi optarg
        in if found_port > 0 then Ret (fo\<lparr>fo_port := found_port\<rparr>)
           else Fault (AssertFailed ''found_port > 0'')
      else if c = CHR ''h'' then Fault (Exited 0)
      else if c = CHR ''?'' then Ret fo
      else Fault (Exited (- 1)))"

fun parse_option_list :: "(char \<times> string) list \<Rightarrow> found_options \<Rightarrow> found_options res" where
  "parse_option_list [] fo = Ret fo"
| "parse_option_list (opt # opts) fo =
     (case parse_option opt fo of Fault e \<Rightarrow> Fault e | Ret fo' \<Rightarrow> parse_option_list opts fo')"

definition default_directory :: "string option \<Rightarrow> int \<Rightarrow> string res" where
  "default_directory getwd errno =
     (case getwd of
        None \<Rightarrow> Fault (AssertFailed ''found_directory != NULL'')
      | Some d \<Rightarrow> if errno = 0 then Ret d else Fault (AssertFailed ''errno == 0''))"

definition default_procfile :: "string \<Rightarrow> string res" where
  "default_procfile directory =
     (let dir_is_root = strncmp_eq directory DIR_SEPARATOR (length directory);
          path_len = (if dir_is_root then length directory + length DEFAULT_FILENAME
                      else length directory + length DIR_SEPARATOR + length DEFAULT_FILENAME);
          out = (if dir_is_root then directory @ DEFAULT_FILENAME
                 else directory @ ''/'' @ DEFAULT_FILENAME)
      in if length out = path_len then Ret (snprintf_text (path_len + 1) out)
         else Fault (AssertFailed ''written == path_len''))"

text \<open>The loop over \<open>commands\<close>.\<close>

fun select_command :: "string option list \<Rightarrow> string \<Rightarrow> string option" where
  "select_command [] found_command = None"
| "select_command (None # cmds) found_command = None"
| "select_command (Some name # cmds) found_command =
     (if strncmp_eq name found_command (length found_command) then Some name
      else select_command cmds found_command)"

text \<open>The result: directory, Procfile path, port, command and the index of the next argument.\<close>

definition parse_options ::
  "string list \<Rightarrow> (char \<times> string) list \<Rightarrow> nat \<Rightarrow> string option \<Rightarrow> int \<Rightarrow> int \<Rightarrow>
   (string \<times> string \<times> int \<times> string option \<times> nat) res" where
  "parse_options argv opts optind getwd errno port =
     (case parse_option_list opts \<lparr> fo_directory = None, fo_procfile = None, fo_port = port \<rparr> of
        Fault e \<Rightarrow> Fault e
      | Ret fo \<Rightarrow>
          (case (case fo_directory fo of None \<Rightarrow> default_directory getwd errno | Some d \<Rightarrow> Ret d) of
             Fault e \<Rightarrow> Fault e
           | Ret directory \<Rightarrow>
               (case (case fo_procfile fo of None \<Rightarrow> default_procfile directory | Some f \<Rightarrow> Ret f) of
                  Fault e \<Rightarrow> Fault e
                | Ret procfile \<Rightarrow>
                    let (found_command, index) =
                          (if length argv \<le> optind then (DEFAULT_COMMAND, optind)
                           else (argv ! optind, Suc optind))
                    in Ret (directory, procfile, fo_port fo, select_command commands found_command, index))))"

section \<open>Lemmas\<close>

lemma dir_is_root_iff: "strncmp_eq d DIR_SEPARATOR (length d) \<longleftrightarrow> d = [] \<or> d = ''/''"
  by (cases d) (auto simp: strncmp_eq_def DIR_SEPARATOR_def take_Cons' split: if_splits)

lemma default_procfile_eq:
  "default_procfile d = Ret (if d = [] \<or> d = ''/'' then d @ ''Procfile'' else d @ ''/Procfile'')"
proof -
  have "default_procfile d = Ret (if strncmp_eq d DIR_SEPARATOR (length d) then d @ DEFAULT_FILENAME
      else d @ ''/'' @ DEFAULT_FILENAME)"
    by (simp add: default_procfile_def Let_def snprintf_text_def DIR_SEPARATOR_def)
  then show ?thesis by (simp add: dir_is_root_iff DEFAULT_FILENAME_def)
qed

lemma select_command_iff: "select_command commands s = (if prefix s ''start'' then Some ''start'' else None)"
proof -
  have "strncmp_eq name s (length s) \<longleftrightarrow> prefix s name" for name
    by (auto simp: strncmp_eq_def prefix_def) (metis append_take_drop_id)
  then show ?thesis by (simp add: commands_def)
qed

text \<open>The last argument given to an option, if any.\<close>

definition last_arg :: "char \<Rightarrow> (char \<times> string) list \<Rightarrow> string option" where
  "last_arg c opts = map_of (rev opts) c"

lemma last_arg_Nil [simp]: "last_arg c [] = None"
  by (simp add: last_arg_def)

lemma last_arg_Cons:
  "last_arg c ((d, a) # opts) = (case last_arg c opts of None \<Rightarrow> if d = c then Some a else None | Some b \<Rightarrow> Some b)"
  by (auto simp: last_arg_def map_add_def split: option.split)

lemma parse_option_list_Ret:
  "parse_option_list opts fo = Ret fo' \<Longrightarrow>
     fo_directory fo' = (case last_arg CHR ''d'' opts of None \<Rightarrow> fo_directory fo | Some d \<Rightarrow> Some d)
   \<and> fo_procfile fo' = (case last_arg CHR ''f'' opts of None \<Rightarrow> fo_procfile fo | Some f \<Rightarrow> Some f)
   \<and> fo_port fo' = (case last_arg CHR ''p'' opts of None \<Rightarrow> fo_port fo | Some p \<Rightarrow> atoi p)
   \<and> (last_arg CHR ''p'' opts \<noteq> None \<longrightarrow> 0 < fo_port fo')"
proof (induction opts arbitrary: fo)
  case (Cons opt opts)
  obtain c a where o: "opt = (c, a)" by (cases opt)
  obtain fo1 where one: "parse_option (c, a) fo = Ret fo1" and rest: "parse_option_list opts fo1 = Ret fo'"
    using Cons.prems by (auto simp: o split: res.splits)
  from Cons.IH [OF rest] one show ?case
    by (auto simp: o last_arg_Cons Let_def split: option.splits if_splits)
qed simp

lemma parse_option_list_total:
  "\<forall>(c, a) \<in> set opts. c \<in> {CHR ''f'', CHR ''d'', CHR ''?''} \<or> c = CHR ''p'' \<and> 0 < atoi a \<Longrightarrow>
   \<exists>fo'. parse_option_list opts fo = Ret fo'"
  by (induction opts arbitrary: fo) (auto simp: Let_def)

section \<open>Properties\<close>

text \<open>C29: What the options mean. Whenever \<open>parse_options\<close> returns, the last \<open>-d\<close>, \<open>-f\<close> and \<open>-p\<close> win; without
  \<open>-d\<close> the directory is the working directory; without \<open>-f\<close> the path is \<open>DIR/Procfile\<close>, with a single
  slash for the root and with none for an empty directory; the port is the given one or the one
  passed in, and a given one is positive; and the command is \<open>start\<close> exactly when the word given for
  it is a prefix of \<open>start\<close> (or no word is given).\<close>

theorem parse_options_result:
  assumes "parse_options argv opts optind getwd errno port = Ret (directory, procfile, port', cmd, index)"
  shows "Some directory = (case last_arg CHR ''d'' opts of None \<Rightarrow> getwd | Some d \<Rightarrow> Some d)
    \<and> procfile = (case last_arg CHR ''f'' opts of
         None \<Rightarrow> (if directory = [] \<or> directory = ''/'' then directory @ ''Procfile'' else directory @ ''/Procfile'')
       | Some f \<Rightarrow> f)
    \<and> port' = (case last_arg CHR ''p'' opts of None \<Rightarrow> port | Some p \<Rightarrow> atoi p)
    \<and> (last_arg CHR ''p'' opts \<noteq> None \<longrightarrow> 0 < port')
    \<and> cmd = (if optind < length argv \<and> \<not> prefix (argv ! optind) ''start'' then None else Some ''start'')
    \<and> index = (if optind < length argv then Suc optind else optind)"
proof -
  obtain fo where fo: "parse_option_list opts \<lparr> fo_directory = None, fo_procfile = None, fo_port = port \<rparr> = Ret fo"
    using assms by (auto simp: parse_options_def split: res.splits)
  note facts = parse_option_list_Ret [OF fo]
  from assms show ?thesis unfolding parse_options_def fo
    using facts by (auto simp: default_procfile_eq default_directory_def select_command_iff DEFAULT_COMMAND_def
        Let_def split: res.splits option.splits if_splits)
qed

theorem parse_options_result_witness:
  "parse_options [''fiveman'', ''st''] [(CHR ''d'', ''/app''), (CHR ''p'', ''80''), (CHR ''d'', ''/'')] 1 None 0 5000
     = Ret (''/'', ''/Procfile'', 80, Some ''start'', 2)"
proof -
  have p: "atoi ''80'' = 80" 
    using atoi_dec_int [of 80] by (simp add: dec_int_def dec_nat.simps digit_char_def)
  obtain d f p' c i where r: "parse_options [''fiveman'', ''st''] [(CHR ''d'', ''/app''), (CHR ''p'', ''80''), (CHR ''d'', ''/'')]
      1 None 0 5000 = Ret (d, f, p', c, i)"
    by (simp add: parse_options_def p default_procfile_eq)
  with parse_options_result [OF r] show ?thesis
    by (simp add: last_arg_def p)
qed

text \<open>\<open>parse_options\<close> aborts only where the code says so. With known options only, every \<open>-p\<close> a
  positive number and a directory given or found, it returns; the assertion on the length of the
  default path never fails.\<close>

theorem parse_options_returns:
  assumes "\<forall>(c, a) \<in> set opts. c \<in> {CHR ''f'', CHR ''d'', CHR ''?''} \<or> c = CHR ''p'' \<and> 0 < atoi a"
    and "last_arg CHR ''d'' opts \<noteq> None \<or> getwd \<noteq> None \<and> errno = 0"
  shows "\<exists>r. parse_options argv opts optind getwd errno port = Ret r"
proof -
  obtain fo where fo: "parse_option_list opts \<lparr> fo_directory = None, fo_procfile = None, fo_port = port \<rparr> = Ret fo"
    using parse_option_list_total [OF assms(1)] by blast
  with parse_option_list_Ret [OF fo] assms(2) show ?thesis
    by (auto simp: parse_options_def default_directory_def default_procfile_eq Let_def split: option.splits)
qed

theorem parse_options_returns_witness:
  "\<exists>r. parse_options [''fiveman''] [(CHR ''f'', ''P'')] 1 (Some ''/home'') 0 5000 = Ret r"
  by (rule parse_options_returns) (simp_all add: last_arg_def)

end
