(* ===== verification/Fiveman_Main.thy ===== *)
theory Fiveman_Main
  imports Fiveman_Shutdown Fiveman_Globals Fiveman_Options
begin

text \<open>
  \<open>src/main.c\<close>: the whole program. \<open>main\<close> composes the components in the order of the sources; the
  part from the creation of the status thread to its end, where both threads run, is \<open>run_session\<close> and
  uses the step relation of \<open>Fiveman_System\<close>. What the environment of the program decides and the
  operating system's record \<open>kernel\<close> does not, is the record \<open>invocation\<close>: the arguments and what
  \<open>getopt_long\<close> makes of them, the contents of files, and the order in which the threads and signals
  take their steps. The assertions on
  \<open>directory\<close> and \<open>procfile\<close> hold by the type of what \<open>parse_options\<close> returns. The lemmas lift the invariant of \<open>Fiveman_Interleaving\<close> to whole runs.
\<close>

section \<open>The program\<close>

text \<open>
  \<open>inv_schedule\<close> is who takes which step until the screen's loop is left, \<open>inv_final\<close> from then until the
  status thread has ended.
\<close>

record invocation =
  inv_argv :: "string list"
  inv_opts :: "(char \<times> string) list"
  inv_optind :: nat
  inv_getwd :: "string option"
  inv_errno :: int
  inv_file :: "string \<Rightarrow> string option"
  inv_schedule :: "actor list"
  inv_final :: "actor list"

text \<open>\<open>if(id != NULL) set((gid_t) atoi(id));\<close> where \<open>gid_t\<close> and \<open>uid_t\<close> are unsigned 32-bit integers.\<close>

definition adopt_id :: "string option \<Rightarrow> (int \<Rightarrow> event) \<Rightarrow> unit eff" where
  "adopt_id ident call =
     (case ident of None \<Rightarrow> io_return () | Some s \<Rightarrow> sys_note (call (uint (word_of_int (atoi s) :: u32))))"

definition adopt_sudo_ids :: "kernel \<Rightarrow> unit eff" where
  "adopt_sudo_ids k =
     (let sudo_gid = getenv (k_environ k) ''SUDO_GID'';
          sudo_uid = getenv (k_environ k) ''SUDO_UID''
      in io_then (adopt_id sudo_gid Set_egid) (adopt_id sudo_uid Set_euid))"

definition default_port :: int where "default_port = 5000"

definition chosen_port :: "string list \<Rightarrow> int" where
  "chosen_port environ =
     (case getenv environ ''PORT'' of
        None \<Rightarrow> default_port
      | Some port_env \<Rightarrow>
          if 0 < length port_env then
            let port_from_env = atoi port_env
            in if port_from_env > 0 then port_from_env else default_port
          else default_port)"

text \<open>
  From \<open>fiveman_status_thread_create\<close> to \<open>fiveman_status_thread_destroy\<close>. The first step of the status
  thread is taken when \<open>draw_screen\<close> has reached its loop.
\<close>

definition run_session :: "kernel \<Rightarrow> session \<Rightarrow> actor list \<Rightarrow> actor list \<Rightarrow> process_table \<Rightarrow> system eff" where
  "run_session k se schedule final pstate =
     io_bind (fiveman_status_thread_create k pstate (se_total_states se) (se_directory se)) (\<lambda>thread.
     io_then setup_screen (
     io_bind (enter_screen k (se_procfile se) (se_directory se) pstate (se_total_states se)) (\<lambda>u.
     io_bind (run_until k se screen_left ''draw_screen'' schedule (launched thread u)) (\<lambda>s.
     io_then teardown_screen (
     fiveman_status_thread_destroy
       (\<lambda>thread. run_until k se thread_ended ''pthread_join'' final (s\<lparr>sy_thread := thread\<rparr>)) (sy_thread s))))))"

text \<open>Up to the Procfile: user, signals, options and their checks.\<close>

definition start_up :: "kernel \<Rightarrow> invocation \<Rightarrow> (string \<times> string \<times> int) eff" where
  "start_up k ivc =
     io_then (adopt_sudo_ids k) (
     io_then (install_signal_handlers k) (
     io_bind (io_res (parse_options (inv_argv ivc) (inv_opts ivc) (inv_optind ivc) (inv_getwd ivc) (inv_errno ivc)
       (chosen_port (k_environ k)))) (\<lambda>(directory, procfile, port, cmd, index).
     io_then (io_assert ''cmd != NULL'' (cmd \<noteq> None)) (
     io_bind (sys_access k directory) (\<lambda>ok.
     io_then (io_assert ''access(directory, R_OK) == 0'' ok) (
     io_bind (sys_access k procfile) (\<lambda>ok.
     io_then (io_assert ''access(procfile, R_OK) == 0'' ok) (
     io_return (directory, procfile, port)))))))))"

definition main :: "kernel \<Rightarrow> invocation \<Rightarrow> int eff" where
  "main k ivc =
     io_bind (fiveman_pager_fork_create k (k_fuel k)) (\<lambda>fork.
     io_bind (start_up k ivc) (\<lambda>(directory, procfile, port).
     io_bind (io_res (parse_procfile (inv_file ivc procfile))) (\<lambda>(instructions, num_instructions, heap).
     io_bind (io_res (fiveman_process_state_table_allocate heap instructions port)) (\<lambda>pstate.
     io_bind (fiveman_process_state_table_initialize k pstate) (\<lambda>pstate.
     io_then fiveman_process_state_table_mark_as_application_table (
     io_bind (run_session k \<lparr> se_procfile = procfile, se_directory = directory, se_total_states = num_instructions,
         se_fork = fork \<rparr> (inv_schedule ivc) (inv_final ivc) pstate) (\<lambda>s.
     io_bind (fiveman_process_state_table_deallocate k (sy_table s)) (\<lambda>emptied.
     io_then (io_res (fiveman_instruction_deallocate heap instructions)) (
     io_then (fiveman_pager_fork_destroy k fork) (
     io_return 0))))))))))"

lemma mark_run [io_simps]:
  "fiveman_process_state_table_mark_as_application_table w = (Ret (), w\<lparr>application_state_table := Live_table\<rparr>)"
  by (simp add: fiveman_process_state_table_mark_as_application_table_def io_run)

section \<open>What a session keeps\<close>

text \<open>The calls outside the step relation that neither signal nor launch nor make or remove a file.\<close>

definition quiet_call :: "event \<Rightarrow> bool" where
  "quiet_call e \<longleftrightarrow> targets {} e \<and> no_launch e \<and> keeps_files e"

interpretation idle: call_filter quiet_call "\<lambda>_. False"
proof
  show "quiet_call e" if "\<And>p n b. e \<noteq> Kill p n b" "\<And>p n. e \<noteq> Killpg p n" "\<And>q r. e \<noteq> Spawn q r"
    "\<And>t p. e \<noteq> Mktemp t p" "\<And>f. e \<noteq> Unlink f" for e
    using that by (cases e) (auto simp: quiet_call_def no_launch_def keeps_files_def)
qed simp_all

text \<open>
  \<open>steady T S m\<close>: whatever the outcome of \<open>m\<close>, its signals go to processes of \<open>S\<close> or launched since, it
  makes and removes no file, and the system it returns, if it does, satisfies the invariant.
\<close>

definition steady :: "process_table \<Rightarrow> int set \<Rightarrow> system eff \<Rightarrow> bool" where
  "steady T S m \<longleftrightarrow> (\<forall>w r w'. m w = (r, w') \<longrightarrow>
     (\<exists>es. trace w' = trace w @ es \<and> own_targets S es \<and> list_all keeps_files es
        \<and> (\<forall>s. r = Ret s \<longrightarrow> sys_ok T (S \<union> spawned es) s)))"

lemma steadyI:
  assumes "\<And>w r w'. m w = (r, w') \<Longrightarrow> \<exists>es. trace w' = trace w @ es \<and> own_targets S es \<and> list_all keeps_files es
     \<and> (\<forall>s. r = Ret s \<longrightarrow> sys_ok T (S \<union> spawned es) s)"
  shows "steady T S m"
  using assms by (auto simp: steady_def)

lemma steadyD:
  assumes "steady T S m" "m w = (r, w')"
  obtains es where "trace w' = trace w @ es" "own_targets S es" "list_all keeps_files es"
    "\<And>s. r = Ret s \<Longrightarrow> sys_ok T (S \<union> spawned es) s"
proof -
  from assms have "\<exists>es. trace w' = trace w @ es \<and> own_targets S es \<and> list_all keeps_files es
     \<and> (\<forall>s. r = Ret s \<longrightarrow> sys_ok T (S \<union> spawned es) s)" by (simp add: steady_def)
  then show thesis by (elim exE conjE) (rule that; simp)
qed

lemma own_targets_mono: "own_targets S es \<Longrightarrow> S \<subseteq> S' \<Longrightarrow> own_targets S' es"
proof (induction es arbitrary: S S')
  case (Cons e es)
  have "S \<union> spawned [e] \<subseteq> S' \<union> spawned [e]" using Cons.prems(2) by blast
  with Cons show ?case by (auto intro: targets_mono)
qed simp

lemma steady_return: "sys_ok T S s \<Longrightarrow> steady T S (io_return s)"
  by (rule steadyI) (auto simp: io_run intro!: exI [of _ "[]"])

lemma steady_fault: "steady T S (io_fault e)"
  by (rule steadyI) (auto simp: io_run intro!: exI [of _ "[]"])

lemma steady_bind:
  assumes m: "steady T S m" and f: "\<And>S' s. S \<subseteq> S' \<Longrightarrow> sys_ok T S' s \<Longrightarrow> steady T S' (f s)"
  shows "steady T S (io_bind m f)"
proof (rule steadyI)
  fix w r w' assume run: "io_bind m f w = (r, w')"
  obtain r1 w1 where m1: "m w = (r1, w1)" by (cases "m w")
  with m obtain es where es: "trace w1 = trace w @ es" "own_targets S es" "list_all keeps_files es"
    "\<And>s. r1 = Ret s \<Longrightarrow> sys_ok T (S \<union> spawned es) s" by (rule steadyD) blast
  show "\<exists>es. trace w' = trace w @ es \<and> own_targets S es \<and> list_all keeps_files es
     \<and> (\<forall>s. r = Ret s \<longrightarrow> sys_ok T (S \<union> spawned es) s)"
  proof (cases r1)
    case (Ret s)
    from f [OF _ es(4) [OF Ret]] have "steady T (S \<union> spawned es) (f s)" by simp
    moreover have "f s w1 = (r, w')" using run m1 Ret by (simp add: io_run)
    ultimately obtain fs where fs: "trace w' = trace w1 @ fs" "own_targets (S \<union> spawned es) fs"
      "list_all keeps_files fs" "\<And>s. r = Ret s \<Longrightarrow> sys_ok T (S \<union> spawned es \<union> spawned fs) s" by (rule steadyD) blast
    with es show ?thesis by (intro exI [of _ "es @ fs"]) (simp add: own_targets_append Un_assoc)
  next
    case (Fault e)
    with run m1 es show ?thesis by (auto simp: io_run)
  qed
qed

text \<open>Calls that precede or follow.\<close>

lemma quiet_events: "list_all quiet_call es \<Longrightarrow> own_targets S es \<and> list_all keeps_files es \<and> spawned es = {}"
proof -
  assume quiet: "list_all quiet_call es"
  then have "list_all (targets S) es" by (auto simp: quiet_call_def list_all_iff intro: targets_mono)
  with quiet show ?thesis by (auto simp: quiet_call_def list_all_iff spawned_def no_launch_def intro: own_targets_all)
qed

lemma steady_after_quiet:
  assumes n: "emits quiet_call n" and f: "\<And>w x w'. n w = (Ret x, w') \<Longrightarrow> steady T S (f x)"
  shows "steady T S (io_bind n f)"
proof (rule steadyI)
  fix w r w' assume run: "io_bind n f w = (r, w')"
  obtain r1 w1 where n1: "n w = (r1, w1)" by (cases "n w")
  with n obtain es where es: "trace w1 = trace w @ es" "list_all quiet_call es" by (auto dest: emitsD)
  show "\<exists>es. trace w' = trace w @ es \<and> own_targets S es \<and> list_all keeps_files es
     \<and> (\<forall>s. r = Ret s \<longrightarrow> sys_ok T (S \<union> spawned es) s)"
  proof (cases r1)
    case (Ret x)
    with run n1 have fx: "f x w1 = (r, w')" by (simp add: io_run)
    have "steady T S (f x)" using f n1 Ret by simp
    from this fx obtain fs where fs: "trace w' = trace w1 @ fs" "own_targets S fs"
      "list_all keeps_files fs" "\<And>s. r = Ret s \<Longrightarrow> sys_ok T (S \<union> spawned fs) s" by (rule steadyD) blast
    with es quiet_events [OF es(2)] show ?thesis by (intro exI [of _ "es @ fs"]) (simp add: own_targets_append)
  next
    case (Fault e)
    with run n1 es quiet_events [OF es(2)] show ?thesis by (auto simp: io_run)
  qed
qed

lemma steady_then_quiet: "emits quiet_call n \<Longrightarrow> steady T S m \<Longrightarrow> steady T S (io_then n m)"
  unfolding io_then_def by (rule steady_after_quiet)

text \<open>A step, and a run of the session, are steady.\<close>

lemma steady_step:
  assumes ok: "sys_ok T S s" and n: "se_total_states se = length T"
  shows "steady T S (system_step k se a s)"
proof (rule steadyI)
  fix w r w' assume run: "system_step k se a s w = (r, w')"
  have att: "list_all attached (sy_table s)" and own: "pids (sy_table s) \<subseteq> S"
    using ok by (simp_all add: sys_ok_def table_ok_def)
  obtain es where es: "trace w' = trace w @ es" "list_all (targets (pids (sy_table s))) es"
    using emitsD [OF system_step_targets [OF att] run] by blast
  obtain fs where "trace w' = trace w @ fs" "list_all keeps_files fs"
    using emitsD [OF system_step_files [OF att] run] by blast
  with es have "list_all keeps_files es" by simp
  moreover have "own_targets S es" by (rule own_targets_mono [OF own_targets_all [OF es(2)] own])
  moreover have "sys_ok T (S \<union> spawned es) s'" if "r = Ret s'" for s'
    using system_step_ok [OF run [unfolded that] ok n] es(1) by simp
  ultimately show "\<exists>es. trace w' = trace w @ es \<and> own_targets S es \<and> list_all keeps_files es
     \<and> (\<forall>s. r = Ret s \<longrightarrow> sys_ok T (S \<union> spawned es) s)" using es(1) by blast
qed

lemma steady_run_until:
  "sys_ok T S s \<Longrightarrow> se_total_states se = length T \<Longrightarrow> steady T S (run_until k se ended what as s)"
proof (induction as arbitrary: s S)
  case (Cons a as)
  then show ?case by (auto intro!: steady_return steady_bind steady_step)
qed (simp add: steady_return steady_fault)

lemma session_quiet:
  "emits quiet_call setup_screen" "emits quiet_call teardown_screen"
  "emits quiet_call (enter_screen k pf d t n)"
  unfolding setup_screen_def teardown_screen_def enter_screen_def sys_getmaxyx_def draw_headers_def draw_ui_text_def Let_def
  by (auto intro!: emits_intros idle.curses_calls idle.cells_calls split: prod.split)

lemma create_quiet:
  "list_all (\<lambda>ps. ps_pid ps = 0) t \<Longrightarrow> emits quiet_call (fiveman_status_thread_create k t n d)"
  unfolding fiveman_status_thread_create_def sys_pthread_def
  by (auto intro!: emits_intros idle.initialize_entries_calls simp: knows_def list_all_iff split: prod.split)

lemma created:
  assumes "fiveman_status_thread_create k t n d w = (Ret th, w')"
  shows "length t \<le> n \<and> th_table th = t \<and> th_num_entries th = n
    \<and> (n = length t \<longrightarrow> rows_ok (length t) (th_cur_entries th))"
proof -
  have le: "length t \<le> n"
    using initialize_entries_overflow [of n 0 t k w] assms
    by (cases "length t \<le> n") (auto simp: fiveman_status_thread_create_def io_run(4))
  obtain cur prev w1 where i: "initialize_entries k n 0 t w = (Ret (cur, prev), w1)"
    and th: "th_table th = t" "th_num_entries th = n" "th_cur_entries th = cur"
    using assms by (auto simp: fiveman_status_thread_create_def io_run(1) elim!: io_elims)
  have "length cur = n" "\<forall>i < length t. shows_process i (t ! i) (cur ! i)"
    using initialize_entries_ok [of 0 t n k w] le i by auto
  with th le show ?thesis by (simp add: rows_ok_def shows_process_def)
qed

lemma entered: "enter_screen k pf d t n w = (Ret u, w') \<Longrightarrow> length t \<le> n \<and> ui_highlighted_row u = 0"
  by (auto simp: enter_screen_def io_run(1,2) Let_def split: if_splits elim!: io_elims)

lemma steady_session:
  assumes pid: "list_all (\<lambda>ps. ps_pid ps = 0) t" and le: "se_total_states se \<le> length t" and ne: "0 < length t"
  shows "steady t {} (run_session k se schedule final t)"
proof -
  have destroy: "steady t S (fiveman_status_thread_destroy
      (\<lambda>thread. run_until k se thread_ended ''pthread_join'' final (s\<lparr>sy_thread := thread\<rparr>)) (sy_thread s))"
    if ok: "sys_ok t S s" and n: "se_total_states se = length t" for S s
  proof -
    have "sys_ok t S (s\<lparr>sy_thread := (sy_thread s)\<lparr>th_exit := True\<rparr>\<rparr>)" using ok by (simp add: sys_ok_def)
    then have "steady t S (run_until k se thread_ended ''pthread_join'' final (s\<lparr>sy_thread := (sy_thread s)\<lparr>th_exit := True\<rparr>\<rparr>))"
      by (rule steady_run_until [OF _ n])
    then have "steady t S (io_bind (run_until k se thread_ended ''pthread_join'' final (s\<lparr>sy_thread := (sy_thread s)\<lparr>th_exit := True\<rparr>\<rparr>))
        (\<lambda>left. io_then (sys_note Pthread_join) (io_return left)))"
      by (rule steady_bind) (auto intro!: steady_then_quiet steady_return emits_intros)
    then have rest: "steady t S (io_bind (run_until k se thread_ended ''pthread_join'' final (s\<lparr>sy_thread := th\<rparr>))
        (\<lambda>left. io_then (sys_note Pthread_join) (io_return left)))" if "th = (sy_thread s)\<lparr>th_exit := True\<rparr>" for th
      using that by simp
    show ?thesis unfolding fiveman_status_thread_destroy_def
      by (rule steady_after_quiet [OF idle.lock_calls [OF emits_return]], rule rest)
        (auto simp: io_run(1) elim!: with_lock_Ret)
  qed
  have loop: "steady t {} (io_bind (run_until k se screen_left ''draw_screen'' schedule (launched th u)) (\<lambda>s.
      io_then teardown_screen (fiveman_status_thread_destroy
        (\<lambda>thread. run_until k se thread_ended ''pthread_join'' final (s\<lparr>sy_thread := thread\<rparr>)) (sy_thread s))))"
    if "ready th u" "th_table th = t" and n: "se_total_states se = length t" for th u
    using launched_ok [OF that(1)] unfolding that(2)
    by (intro steady_bind steady_run_until n steady_then_quiet session_quiet destroy)
  show ?thesis unfolding run_session_def
  proof (rule steady_after_quiet [OF create_quiet [OF pid]])
    fix w th w' assume "fiveman_status_thread_create k t (se_total_states se) (se_directory se) w = (Ret th, w')"
    with created le have th: "th_table th = t" "th_num_entries th = length t" "rows_ok (length t) (th_cur_entries th)"
      and n: "se_total_states se = length t"
      by (metis le_antisym)+
    show "steady t {} (io_then setup_screen (io_bind (enter_screen k (se_procfile se) (se_directory se) t (se_total_states se)) (\<lambda>u.
        io_bind (run_until k se screen_left ''draw_screen'' schedule (launched th u)) (\<lambda>s.
        io_then teardown_screen (fiveman_status_thread_destroy
          (\<lambda>thread. run_until k se thread_ended ''pthread_join'' final (s\<lparr>sy_thread := thread\<rparr>)) (sy_thread s))))))"
    proof (rule steady_then_quiet [OF session_quiet(1)], rule steady_after_quiet [OF session_quiet(3)], rule loop [OF _ th(1) n])
      fix v u v' assume "enter_screen k (se_procfile se) (se_directory se) t (se_total_states se) v = (Ret u, v')"
      with entered have "ui_highlighted_row u = 0" by blast
      then show "ready th u" using th pid ne by (simp add: ready_def)
    qed
  qed
qed

section \<open>Files of a whole run\<close>

definition files_made :: "event list \<Rightarrow> string list" where
  "files_made es = concat (map (\<lambda>e. case e of Mktemp t p \<Rightarrow> [p] | _ \<Rightarrow> []) es)"

definition files_removed :: "event list \<Rightarrow> string option list" where
  "files_removed es = concat (map (\<lambda>e. case e of Unlink f \<Rightarrow> [f] | _ \<Rightarrow> []) es)"

definition outputs :: "process_table \<Rightarrow> string option list" where
  "outputs table = concat (map (\<lambda>ps. [ps_stdout ps, ps_stderr ps]) table)"

lemma files_simps [simp]:
  "files_made [] = []" "files_made (es @ fs) = files_made es @ files_made fs"
  "files_removed [] = []" "files_removed (es @ fs) = files_removed es @ files_removed fs"
  "files_made (Mktemp t p # es) = p # files_made es" "files_removed (Mktemp t p # es) = files_removed es"
  "files_made (Unlink f # es) = files_made es" "files_removed (Unlink f # es) = f # files_removed es"
  by (simp_all add: files_made_def files_removed_def)

lemma files_kept: "list_all keeps_files es \<Longrightarrow> files_made es = [] \<and> files_removed es = []"
proof (induction es)
  case (Cons e es)
  then show ?case by (cases e) (simp_all add: files_made_def files_removed_def)
qed simp

lemma files_filter:
  assumes "\<And>e. \<not> P e \<Longrightarrow> keeps_files e"
  shows "files_made (filter P es) = files_made es \<and> files_removed (filter P es) = files_removed es"
proof (induction es)
  case (Cons e es)
  show ?case
  proof (cases "P e")
    case True
    with Cons show ?thesis by (simp add: files_made_def files_removed_def)
  next
    case False
    then have "files_made [e] = []" "files_removed [e] = []" using files_kept [of "[e]"] assms [OF False] by simp_all
    with False Cons files_simps(2,4) [of "[e]" es] show ?thesis by simp
  qed
qed simp

lemma initialize_one:
  assumes "fiveman_process_state_initialize k ps w = (Ret ps', w')"
  obtains t1 t2 out err where "trace w' = trace w @ [Mktemp t1 out, Mktemp t2 err]"
    "ps_stdout ps' = Some out" "ps_stderr ps' = Some err" "ps_pid ps' = ps_pid ps"
proof -
  obtain name where "instr_name (ps_instruction ps) = Some name"
    using assms by (cases "instr_name (ps_instruction ps)") (simp_all add: fiveman_process_state_initialize_def io_simps)
  with assms that show thesis
    by (auto simp: fiveman_process_state_initialize_def fiveman_process_state_clear_sample_def output_path_def
        Let_def io_simps)
qed

lemma table_initialized:
  "fiveman_process_state_table_initialize k t w = (Ret t', w') \<Longrightarrow>
   \<exists>es. trace w' = trace w @ es \<and> map Some (files_made es) = outputs t' \<and> files_removed es = []
     \<and> length t' = length t \<and> map ps_pid t' = map ps_pid t"
  unfolding fiveman_process_state_table_initialize_def
proof (induction t arbitrary: t' w)
  case (Cons ps t)
  then obtain ps1 w1 t1 where one: "fiveman_process_state_initialize k ps w = (Ret ps1, w1)"
    and rest: "walk (fiveman_process_state_initialize k) t w1 = (Ret t1, w')" and t': "t' = ps1 # t1"
    by (auto simp: io_run(1) elim!: io_bind_Ret)
  from Cons.IH [OF rest] obtain es where "trace w' = trace w1 @ es" "map Some (files_made es) = outputs t1"
    "files_removed es = []" "length t1 = length t" "map ps_pid t1 = map ps_pid t" by blast
  with initialize_one [OF one] t' show ?case
    by (metis (no_types, lifting) append.assoc append_Cons append_Nil files_simps(5,6) length_Cons list.simps(9)
        outputs_def concat.simps(2))
qed (simp add: io_run outputs_def)

lemma table_deallocated:
  "\<exists>t' w' es. fiveman_process_state_table_deallocate k t w = (Ret t', w') \<and> trace w' = trace w @ es
     \<and> files_made es = [] \<and> files_removed es = outputs t"
proof -
  obtain t' w' es where run: "fiveman_process_state_deallocate k t w = (Ret t', w')" "trace w' = trace w @ es"
    "filter (\<lambda>e. \<not> sampling_event e) es = concat (map (\<lambda>ps. [Unlink (ps_stdout ps), Unlink (ps_stderr ps)]) t)"
    using deallocate_unlinks by blast
  have "files_made (concat (map (\<lambda>ps. [Unlink (ps_stdout ps), Unlink (ps_stderr ps)]) t)) = []
      \<and> files_removed (concat (map (\<lambda>ps. [Unlink (ps_stdout ps), Unlink (ps_stderr ps)]) t)) = outputs t"
    by (induction t) (simp_all add: outputs_def)
  moreover have "\<not> \<not> sampling_event e \<Longrightarrow> keeps_files e" for e
    by (cases e) (simp_all add: sampling_event_def keeps_files_def)
  ultimately show ?thesis using run files_filter [of "\<lambda>e. \<not> sampling_event e" es]
    by (auto simp: fiveman_process_state_table_deallocate_def io_run)
qed

lemma outputs_same: "list_all2 same_entry t t' \<Longrightarrow> outputs t' = outputs t"
  by (induction rule: list_all2_induct) (simp_all add: outputs_def same_entry_def)

lemma length_outputs [simp]: "length (outputs t) = 2 * length t"
  by (induction t) (simp_all add: outputs_def)

section \<open>The pieces of a run of \<open>main\<close>\<close>

lemma allocated:
  "allocate_from fuel h p port = Ret t \<Longrightarrow> chain h p as \<Longrightarrow>
     length t = length as \<and> list_all (\<lambda>ps. ps_pid ps = 0) t"
proof (induction fuel h p port arbitrary: t as rule: allocate_from.induct)
  case (3 fuel h a port)
  then show ?case by (cases as) (auto simp: fiveman_process_state_allocate_def split: res.splits)
qed (auto elim: chain.elims)

lemma main_table:
  assumes parse: "parse_procfile (Some text) = Ret (head, found, h)"
    and alloc: "fiveman_process_state_table_allocate h head port = Ret t"
    and init: "fiveman_process_state_table_initialize k t w = (Ret t', w')"
  shows "list_all (\<lambda>ps. ps_pid ps = 0) t' \<and> length t' = length h \<and> found \<le> length t' \<and> 0 < length t'"
proof -
  have t: "length t = length h" "list_all (\<lambda>ps. ps_pid ps = 0) t"
    using allocated [OF alloc [unfolded fiveman_process_state_table_allocate_def]] parse_procfile_chain [OF parse] by auto
  have t': "length t' = length t" "map ps_pid t' = map ps_pid t" using table_initialized [OF init] by auto
  have "list_all (\<lambda>p. p = 0) (map ps_pid t')" unfolding t'(2) using t(2) by (simp add: list.pred_map comp_def)
  then have "list_all (\<lambda>ps. ps_pid ps = 0) t'" by (simp add: list.pred_map comp_def)
  moreover have "found \<le> length h" using parsed_cells [OF parse] by simp
  moreover have "0 < length h" using parse_procfile_chain [OF parse] by simp
  ultimately show ?thesis using t t' by simp
qed

lemma pager_execute_quiet: "emits quiet_call (fiveman_pager_execute k f rsrc)"
  unfolding fiveman_pager_execute_def by (auto intro!: emits_intros)

lemma pager_main_quiet: "emits quiet_call (fiveman_pager_fork_main k rsrc n st)"
proof (induction n arbitrary: st)
  case (Suc n)
  then show ?case
    by (auto simp: pager_round_def intro!: emits_intros pager_execute_quiet split: option.split prod.split)
qed (auto intro!: emits_intros)

lemma create_pager_quiet: "emits quiet_call (fiveman_pager_fork_create k n)"
  unfolding fiveman_pager_fork_create_def Let_def
  by (auto intro!: emits_intros pager_main_quiet)

lemma start_up_quiet: "emits quiet_call (start_up k ivc)"
  unfolding start_up_def adopt_sudo_ids_def adopt_id_def install_signal_handlers_def install_def Let_def
  by (auto intro!: emits_intros split: prod.split option.split)

text \<open>\<open>modest S m\<close>: whatever the outcome, signals and probes go to processes of \<open>S\<close> or launched since.\<close>

definition modest :: "int set \<Rightarrow> 'a eff \<Rightarrow> bool" where
  "modest S m \<longleftrightarrow> (\<forall>w r w'. m w = (r, w') \<longrightarrow> (\<exists>es. trace w' = trace w @ es \<and> own_targets S es))"

lemma modestD: "modest S m \<Longrightarrow> m w = (r, w') \<Longrightarrow> \<exists>es. trace w' = trace w @ es \<and> own_targets S es"
  by (simp add: modest_def)

lemma modest_emits: "emits (targets S) m \<Longrightarrow> modest S m"
  by (meson emitsD modest_def own_targets_all)

lemma modest_quiet: "emits quiet_call m \<Longrightarrow> modest S m"
  by (meson emitsD modest_def quiet_events)

lemma modest_steady: "steady T {} m \<Longrightarrow> modest S m"
  unfolding modest_def by (meson steadyD own_targets_mono empty_subsetI)

lemma modest_bind:
  assumes m: "modest S m" and f: "\<And>w x w'. m w = (Ret x, w') \<Longrightarrow> modest S (f x)"
  shows "modest S (io_bind m f)"
  unfolding modest_def
proof (intro allI impI)
  fix w r w' assume run: "io_bind m f w = (r, w')"
  obtain r1 w1 where m1: "m w = (r1, w1)" by (cases "m w")
  obtain es where es: "trace w1 = trace w @ es" "own_targets S es" using modestD [OF m m1] by blast
  show "\<exists>es. trace w' = trace w @ es \<and> own_targets S es"
  proof (cases r1)
    case (Ret x)
    with run m1 have "f x w1 = (r, w')" by (simp add: io_run)
    from modestD [OF f this] m1 Ret obtain fs where fs: "trace w' = trace w1 @ fs" "own_targets S fs" by blast
    have "own_targets (S \<union> spawned es) fs" by (rule own_targets_mono [OF fs(2)]) simp
    with es fs(1) show ?thesis by (intro exI [of _ "es @ fs"]) (simp add: own_targets_append)
  next
    case (Fault e)
    with run m1 es show ?thesis by (auto simp: io_run)
  qed
qed

lemma initialize_modest: "modest S (fiveman_process_state_table_initialize k t)"
  unfolding fiveman_process_state_table_initialize_def fiveman_process_state_initialize_def output_path_def Let_def
  by (auto intro!: modest_emits emits_intros)

lemma deallocate_modest: "modest S (fiveman_process_state_table_deallocate k t)"
proof (rule modest_emits)
  have "emits (targets (pids [])) (fiveman_process_state_table_deallocate k t)"
    unfolding fiveman_process_state_table_deallocate_def fiveman_process_state_deallocate_def deallocate_one_def
    by (auto intro!: emits_intros own.sampling_calls)
  then show "emits (targets S) (fiveman_process_state_table_deallocate k t)"
    by (rule emits_mono) (auto simp: pids_def intro: targets_mono)
qed

lemma destroy_modest: "modest {pf_pid fork} (fiveman_pager_fork_destroy k fork)"
  unfolding fiveman_pager_fork_destroy_def by (auto intro!: modest_emits emits_intros)

lemma res_modest: "modest S (io_res r)" "modest S (io_return x)"
  "modest S fiveman_process_state_table_mark_as_application_table"
  unfolding fiveman_process_state_table_mark_as_application_table_def
  by (auto intro!: modest_emits emits_intros)

lemma parsed_text: "parse_procfile file = Ret r \<Longrightarrow> \<exists>text. file = Some text"
  by (auto simp: parse_procfile_def split: option.splits)

lemma io_res_Ret [elim!]: "io_res r w = (Ret x, w') \<Longrightarrow> (r = Ret x \<Longrightarrow> w' = w \<Longrightarrow> thesis) \<Longrightarrow> thesis"
  by (simp add: io_run)

lemma session_modest:
  assumes parse: "parse_procfile file = Ret (head, found, h)"
    and alloc: "fiveman_process_state_table_allocate h head port = Ret t"
    and init: "fiveman_process_state_table_initialize k t w = (Ret t', w')"
  shows "modest S (run_session k \<lparr> se_procfile = pf, se_directory = d, se_total_states = found, se_fork = fork \<rparr>
     schedule final t')"
proof -
  obtain "text" where "parse_procfile (Some text) = Ret (head, found, h)" using parsed_text [OF parse] parse by blast
  from main_table [OF this alloc init] show ?thesis
    by (intro modest_steady [OF steady_session]) (simp_all del: length_greater_0_conv)
qed

lemma pager_created:
  assumes "fiveman_pager_fork_create k n w = (Ret fork, w')"
  obtains files confirms where "trace w' = trace w @ [Pipe files, Pipe confirms, Fork (pf_pid fork), Close (fst files), Close (snd confirms)]"
    "pf_file_write_fd fork = snd files" "pf_confirm_read_fd fork = fst confirms" "pf_pid fork \<noteq> 0"
proof -
  define files confirms where "files = k_pipe k (trace w)" and "confirms = k_pipe k (trace w @ [Pipe files])"
  define pid where "pid = k_fork k (trace w @ [Pipe files, Pipe confirms])"
  have "pid \<noteq> 0"
  proof
    assume "pid = 0"
    with assms show False
      by (auto simp: fiveman_pager_fork_create_def Let_def io_run(1,2,3) sys_run files_def confirms_def pid_def
          split: prod.splits res.splits elim!: io_elims)
  qed
  with assms have "fork = pager_record files confirms pid"
    "trace w' = trace w @ [Pipe files, Pipe confirms, Fork pid, Close (fst files), Close (snd confirms)]"
    by (auto simp: fiveman_pager_fork_create_def Let_def io_simps files_def confirms_def pid_def pager_record_def)
  with \<open>pid \<noteq> 0\<close> that show thesis by (simp add: pager_record_def)
qed

text \<open>The registered table and the signal actions are the same before and after a session.\<close>

context system_variable
begin

lemma keeps_session: "keeps f (run_session k se schedule final t)"
  unfolding run_session_def fiveman_status_thread_create_def sys_pthread_def setup_screen_def enter_screen_def
    sys_getmaxyx_def draw_headers_def draw_ui_text_def teardown_screen_def fiveman_status_thread_destroy_def Let_def
  by (auto intro!: keeps_intros split: prod.split)

end

lemma outer_dispositions:
  "keeps dispositions (fiveman_process_state_table_initialize k t)"
  "keeps dispositions (fiveman_process_state_table_deallocate k t)"
  "keeps application_state_table (fiveman_process_state_table_deallocate k t)"
  "keeps dispositions (fiveman_pager_fork_destroy k fork)" "keeps application_state_table (fiveman_pager_fork_destroy k fork)"
  unfolding fiveman_process_state_table_initialize_def fiveman_process_state_initialize_def output_path_def
    fiveman_process_state_table_deallocate_def fiveman_process_state_deallocate_def deallocate_one_def
    fiveman_pager_fork_destroy_def sys_mktemp_def Let_def
  by (auto intro!: keeps_intros)

lemma start_up_handlers:
  assumes "start_up k ivc w = (Ret r, w')"
  shows "sa_handler (dispositions w' SIGCHLD) = Handle_sigchld"
proof -
  obtain w1 w2 where i: "install_signal_handlers k w1 = (Ret (), w2)" and d: "dispositions w' = dispositions w2"
    using assms by (auto simp: start_up_def io_run(1,5) sys_run split: if_splits elim!: io_elims)
  from i show ?thesis unfolding d install_signal_handlers_def Let_def
    by (auto elim!: io_then_Ret dest!: install_Ret simp: uninitialised_sigaction_def SIGINT_def SIGCHLD_def)
qed

lemma pager_destroyed:
  assumes "fiveman_pager_fork_destroy k fork w = (Ret u, w')"
  shows "if 0 < pf_pid fork
    then \<exists>b. trace w' = trace w @ [Kill (pf_pid fork) SIGTERM b, Close (pf_file_write_fd fork), Close (pf_confirm_read_fd fork)]
    else w' = w"
  using assms by (auto simp: fiveman_pager_fork_destroy_def io_simps)

lemma main_Ret:
  assumes "main k ivc w = (Ret status, w')"
  obtains fork w1 d f port w2 head found h t t' w3 s w4 emptied w5 u where
    "fiveman_pager_fork_create k (k_fuel k) w = (Ret fork, w1)"
    "start_up k ivc w1 = (Ret (d, f, port), w2)"
    "parse_procfile (inv_file ivc f) = Ret (head, found, h)"
    "fiveman_process_state_table_allocate h head port = Ret t"
    "fiveman_process_state_table_initialize k t w2 = (Ret t', w3)"
    "run_session k \<lparr> se_procfile = f, se_directory = d, se_total_states = found, se_fork = fork \<rparr>
      (inv_schedule ivc) (inv_final ivc) t' (w3\<lparr>application_state_table := Live_table\<rparr>) = (Ret s, w4)"
    "fiveman_process_state_table_deallocate k (sy_table s) w4 = (Ret emptied, w5)"
    "fiveman_pager_fork_destroy k fork w5 = (Ret u, w')" "status = 0"
  using assms by (auto simp: main_def io_run(1) mark_run elim!: io_elims)

lemma main_events:
  assumes "main k ivc w = (Ret status, w')"
  obtains files confirms pid b procfile head found h es where
    "status = 0" "parse_procfile (inv_file ivc procfile) = Ret (head, found, h)"
    "new_events w w' = [Pipe files, Pipe confirms, Fork pid] @ es
       @ (if 0 < pid then [Kill pid SIGTERM b, Close (snd files), Close (fst confirms)] else [])"
    "files_removed es = map Some (files_made es)" "length (files_made es) = 2 * found"
proof -
  obtain fork w1 d f port w2 head found h t t' w3 s w4 emptied w5 u where
    c: "fiveman_pager_fork_create k (k_fuel k) w = (Ret fork, w1)" and
    up: "start_up k ivc w1 = (Ret (d, f, port), w2)" and
    parse: "parse_procfile (inv_file ivc f) = Ret (head, found, h)" and
    alloc: "fiveman_process_state_table_allocate h head port = Ret t" and
    init: "fiveman_process_state_table_initialize k t w2 = (Ret t', w3)" and
    ses: "run_session k \<lparr> se_procfile = f, se_directory = d, se_total_states = found, se_fork = fork \<rparr>
      (inv_schedule ivc) (inv_final ivc) t' (w3\<lparr>application_state_table := Live_table\<rparr>) = (Ret s, w4)" and
    dea: "fiveman_process_state_table_deallocate k (sy_table s) w4 = (Ret emptied, w5)" and
    des: "fiveman_pager_fork_destroy k fork w5 = (Ret u, w')" and status: "status = 0"
    using assms by (rule main_Ret)
  obtain "text" where "parse_procfile (Some text) = Ret (head, found, h)" using parsed_text [OF parse] parse by auto
  from main_table [OF this alloc init]
  have tab: "list_all (\<lambda>ps. ps_pid ps = 0) t'" "found \<le> length t'" "0 < length t'" by blast+
  obtain files confirms where pipes: "trace w1 = trace w @ [Pipe files, Pipe confirms, Fork (pf_pid fork), Close (fst files), Close (snd confirms)]"
    "pf_file_write_fd fork = snd files" "pf_confirm_read_fd fork = fst confirms"
    by (rule pager_created [OF c])
  obtain es2 where es2: "trace w2 = trace w1 @ es2" "list_all quiet_call es2" using emitsD [OF start_up_quiet up] by blast
  obtain es3 where es3: "trace w3 = trace w2 @ es3" "map Some (files_made es3) = outputs t'" "files_removed es3 = []"
    using table_initialized [OF init] by blast
  obtain es4 where es4: "trace w4 = trace w3 @ es4" "list_all keeps_files es4" "sys_ok t' (spawned es4) s"
    using steadyD [OF steady_session ses] tab by auto
  obtain es5 where es5: "trace w5 = trace w4 @ es5" "files_made es5 = []" "files_removed es5 = outputs (sy_table s)"
    using table_deallocated [of k "sy_table s" w4] dea by auto
  have "found = length t'"
    using ses tab(2) by (auto simp: run_session_def dest!: created elim!: io_bind_Ret)
  then have count: "length (files_made es3) = 2 * found" using es3(2) by (metis length_map length_outputs)
  have same: "outputs (sy_table s) = outputs t'" using es4(3) by (auto simp: sys_ok_def table_ok_def outputs_same)
  obtain es6 b where es6: "trace w' = trace w5 @ es6"
    "es6 = (if 0 < pf_pid fork then [Kill (pf_pid fork) SIGTERM b, Close (snd files), Close (fst confirms)] else [])"
    using pager_destroyed [OF des] pipes(2,3) by (cases "0 < pf_pid fork") auto
  let ?es = "[Close (fst files), Close (snd confirms)] @ es2 @ es3 @ es4 @ es5"
  have new: "new_events w w' = [Pipe files, Pipe confirms, Fork (pf_pid fork)] @ ?es @ es6"
    using pipes(1) es2(1) es3(1) es4(1) es5(1) es6(1) by (simp add: new_events_def)
  have none: "files_made es2 = []" "files_removed es2 = []" "files_made es4 = []" "files_removed es4 = []"
    "files_made [Close (fst files), Close (snd confirms)] = []" "files_removed [Close (fst files), Close (snd confirms)] = []"
    using quiet_events [OF es2(2)] es4(2) files_kept [of es2] files_kept [of es4]
      files_kept [of "[Close (fst files), Close (snd confirms)]"] by (simp_all add: keeps_files_def)
  have made: "files_made ?es = files_made es3" "files_removed ?es = outputs t'"
    by (simp_all only: none es3(3) es5(2,3) same files_simps append_Nil append_Nil2)
  show thesis
  proof (rule that [OF status parse])
    show "new_events w w' = [Pipe files, Pipe confirms, Fork (pf_pid fork)] @ ?es
       @ (if 0 < pf_pid fork then [Kill (pf_pid fork) SIGTERM b, Close (snd files), Close (fst confirms)] else [])"
      unfolding new es6(2) by (rule refl)
    show "files_removed ?es = map Some (files_made ?es)" "length (files_made ?es) = 2 * found"
      unfolding made using es3(2) count by simp_all
  qed
qed

section \<open>Runs that abort\<close>

text \<open>An operating system that forks the helper and installs the handlers.\<close>

definition willing :: "kernel \<Rightarrow> bool" where
  "willing k \<longleftrightarrow> (\<forall>h. k_fork k h \<noteq> 0) \<and> (\<forall>h s. k_sigaction k h s)"

lemma willing_create:
  assumes "willing k"
  shows "\<exists>fork w'. fiveman_pager_fork_create k n w = (Ret fork, w')"
  using assms by (simp add: willing_def fiveman_pager_fork_create_def Let_def io_simps pager_record_def)

lemma willing_install: "willing k \<Longrightarrow> \<exists>w'. install_signal_handlers k w = (Ret (), w')"
  by (simp add: willing_def install_signal_handlers_def install_def sys_call_def Let_def io_simps)

lemma adopt_returns: "\<exists>w'. adopt_sudo_ids k w = (Ret (), w')"
  by (simp add: adopt_sudo_ids_def adopt_id_def Let_def io_simps split: option.split)

text \<open>The options as \<open>main\<close> reads them.\<close>

definition options_of :: "kernel \<Rightarrow> invocation \<Rightarrow> (string \<times> string \<times> int \<times> string option \<times> nat) res" where
  "options_of k ivc = parse_options (inv_argv ivc) (inv_opts ivc) (inv_optind ivc) (inv_getwd ivc) (inv_errno ivc)
     (chosen_port (k_environ k))"

lemma start_up_run:
  assumes "willing k" "options_of k ivc = Ret (d, f, port, cmd, i)"
  shows "cmd = None \<Longrightarrow> \<exists>w'. start_up k ivc w = (Fault (AssertFailed ''cmd != NULL''), w')"
    and "cmd \<noteq> None \<Longrightarrow> (\<And>h f. k_access k h f) \<Longrightarrow> \<exists>w'. start_up k ivc w = (Ret (d, f, port), w')"
proof -
  obtain w1 where w1: "adopt_sudo_ids k w = (Ret (), w1)" using adopt_returns by blast
  obtain w2 where w2: "install_signal_handlers k w1 = (Ret (), w2)" using willing_install [OF assms(1)] by blast
  show "cmd = None \<Longrightarrow> \<exists>w'. start_up k ivc w = (Fault (AssertFailed ''cmd != NULL''), w')"
    and "cmd \<noteq> None \<Longrightarrow> (\<And>h f. k_access k h f) \<Longrightarrow> \<exists>w'. start_up k ivc w = (Ret (d, f, port), w')"
    using w1 w2 assms(2) by (auto simp: start_up_def options_of_def io_simps)
qed

lemma allocate_returns:
  "chain h p as \<Longrightarrow> length as < fuel \<Longrightarrow>
   \<exists>t. allocate_from fuel h p port = Ret t \<and> map ps_instruction t = map (\<lambda>a. the (h ! a)) as"
proof (induction as arbitrary: p port fuel)
  case (Cons a as)
  then obtain c n where p: "p = Some a" "load_instr h a = Ret c" "chain h (instr_next c) as" "fuel = Suc n" "length as < n"
    by (cases fuel) (auto split: res.splits)
  from Cons.IH [OF p(3,5), of "int32 (port + 1)"] obtain t where
    "allocate_from n h (instr_next c) (int32 (port + 1)) = Ret t" "map ps_instruction t = map (\<lambda>a. the (h ! a)) as" by blast
  moreover have "the (h ! a) = c" using p(2) by (simp add: load_instr_Ret)
  ultimately show ?case using p by (simp add: fiveman_process_state_allocate_def)
qed simp

lemma initialize_returns:
  "\<forall>ps \<in> set t. instr_name (ps_instruction ps) \<noteq> None \<Longrightarrow>
   \<exists>t' w'. fiveman_process_state_table_initialize k t w = (Ret t', w')"
  unfolding fiveman_process_state_table_initialize_def
proof (induction t arbitrary: w)
  case (Cons ps t)
  then obtain name where "instr_name (ps_instruction ps) = Some name" by auto
  then obtain ps1 w1 where one: "fiveman_process_state_initialize k ps w = (Ret ps1, w1)"
    by (simp add: fiveman_process_state_initialize_def output_path_def Let_def io_simps)
  from Cons obtain t' w' where "walk (fiveman_process_state_initialize k) t w1 = (Ret t', w')" by fastforce
  with one show ?case by (simp add: io_run)
qed (simp add: io_run)

lemma table_returns:
  assumes "parse_procfile (Some text) = Ret (head, found, h)" "list_all (\<lambda>c. \<exists>n e. c = Some (Some n, e)) (heap_entries h)"
  shows "\<exists>t t' w'. fiveman_process_state_table_allocate h head port = Ret t
    \<and> fiveman_process_state_table_initialize k t w = (Ret t', w')"
proof -
  have ch: "chain h head [0..<length h]" using parse_procfile_chain [OF assms(1)] by blast
  obtain t where t: "fiveman_process_state_table_allocate h head port = Ret t"
    "map ps_instruction t = map (\<lambda>a. the (h ! a)) [0..<length h]"
    using allocate_returns [OF ch, of "Suc (length h)" port] by (auto simp: fiveman_process_state_table_allocate_def)
  have "instr_name (the (h ! i)) \<noteq> None" if "i < length h" for i
    using assms(2) that by (cases "h ! i") (auto simp: heap_entries_def instr_entry_def list_all_length)
  then have "\<forall>c \<in> set (map ps_instruction t). instr_name c \<noteq> None" unfolding t(2) by auto
  then have "\<forall>ps \<in> set t. instr_name (ps_instruction ps) \<noteq> None" by simp
  with t(1) initialize_returns show ?thesis by blast
qed

section \<open>A run that returns\<close>

text \<open>The steps of the thread alone are a schedule of its own.\<close>

lemma run_thread_finished: "sy_pc s = Finished \<Longrightarrow> run_thread k n s w = (Ret s, w)"
  by (induction n) (simp_all add: thread_step_def io_run)

lemma run_until_thread:
  "run_thread k n s w = (Ret s', w') \<Longrightarrow> sy_pc s' = Finished \<Longrightarrow>
   run_until k se thread_ended what (replicate n Status_thread) s w = (Ret s', w')"
proof (induction n arbitrary: s w)
  case (Suc n)
  show ?case
  proof (cases "sy_pc s = Finished")
    case True
    with Suc.prems run_thread_finished [OF True, of k "Suc n" w] show ?thesis by (simp add: io_run(1))
  next
    case False
    from Suc.prems(1) obtain s1 w1 where "thread_step k s w = (Ret s1, w1)" "run_thread k n s1 w1 = (Ret s', w')"
      by (auto elim!: io_bind_Ret)
    with Suc.IH Suc.prems(2) False show ?thesis by (simp add: system_step_def io_run)
  qed
qed (simp add: io_run)

text \<open>A table as \<open>table_initialize\<close> leaves it, with names and commands.\<close>

definition fresh :: "process_table \<Rightarrow> bool" where
  "fresh t \<longleftrightarrow> t \<noteq> [] \<and> list_all (\<lambda>ps. ps_pid ps = 0 \<and> ps_sample ps = zero_sample
     \<and> (\<exists>n e. instr_name (ps_instruction ps) = Some n \<and> instr_exec (ps_instruction ps) = Some e)) t"

lemma quiet_create:
  assumes "fresh t"
  shows "\<exists>th w'. fiveman_status_thread_create quiet_kernel t (length t) d w = (Ret th, w') \<and> th_table th = t
    \<and> th_num_entries th = length t \<and> length (th_cur_entries th) = length t
    \<and> (\<forall>i < length t. shows_process i (t ! i) (th_cur_entries th ! i))"
proof -
  obtain cur prev w1 where "initialize_entries quiet_kernel (length t) 0 t w = (Ret (cur, prev), w1)" "length cur = length t"
    "\<forall>i < length t. shows_process (0 + i) (t ! i) (cur ! i)"
    using initialize_entries_ok [of 0 t "length t" quiet_kernel w] by auto
  then show ?thesis by (simp add: fiveman_status_thread_create_def sys_pthread_def sys_call_def quiet_kernel_def io_simps Let_def)
qed

lemma fresh_drawable:
  assumes "fresh t" "th_table th = t" "th_num_entries th = length t" "length (th_cur_entries th) = length t"
    "\<forall>i < length t. shows_process i (t ! i) (th_cur_entries th ! i)" "ui_extents u = update_screen_extents maxy maxx"
  shows "drawable th u"
proof -
  have "drawable_row t (th_cur_entries th ! i)" if i: "i < length t" for i
  proof -
    obtain n e where "ps_sample (t ! i) = zero_sample" "instr_name (ps_instruction (t ! i)) = Some n"
      "instr_exec (ps_instruction (t ! i)) = Some e"
      using assms(1) i by (auto simp: fresh_def list_all_length)
    then show ?thesis using assms(5) i
      by (auto simp: drawable_row_def shows_process_def small_sample_def zero_sample_def)
  qed
  with assms show ?thesis by (auto simp: drawable_def)
qed

lemma quiet_session:
  assumes t: "fresh t" and n: "se_total_states se = length t" and fin: "final = replicate (3 * length t + 6) Status_thread"
  shows "\<exists>s w'. run_session quiet_kernel se quit_at_once final t w = (Ret s, w')"
proof -
  let ?k = quiet_kernel
  obtain th w1 where th: "fiveman_status_thread_create ?k t (length t) (se_directory se) w = (Ret th, w1)" "th_table th = t"
    "th_num_entries th = length t" "length (th_cur_entries th) = length t"
    "\<forall>i < length t. shows_process i (t ! i) (th_cur_entries th ! i)"
    using quiet_create [OF t] by blast
  obtain w2 where w2: "setup_screen w1 = (Ret (), w2)" "\<not> exit_fiveman_immediately w2"
    by (simp add: io_simps)
  obtain u w3 where u: "enter_screen ?k (se_procfile se) (se_directory se) t (length t) w2 = (Ret u, w3)"
    "ui_extents u = update_screen_extents 24 80" "\<not> ui_is_terminating u" "ui_highlighted_row u = 0" "\<not> exit_fiveman_immediately w3"
    using w2(2) by (simp add: enter_screen_def sys_getmaxyx_def sys_call_def draw_ui_text_def draw_headers_def curses_all_run
        draw_cells_run io_simps Let_def quiet_kernel_def)
  have dr: "drawable th u" by (rule fresh_drawable [OF t th(2-5) u(2)])
  have none: "list_all (\<lambda>ps. \<not> 0 < ps_pid ps) t" using t by (simp add: fresh_def list_all_iff)
  have "sy_ui_pc (launched th u) = Drawing" "\<not> ui_is_terminating (sy_ui (launched th u))"
    "drawable (sy_thread (launched th u)) (sy_ui (launched th u))" "list_all (\<lambda>ps. \<not> 0 < ps_pid ps) (sy_table (launched th u))"
    using dr none u(3) th(2) by (simp_all add: launched_def)
  note quit = quit_while_idle [OF this u(5), of se "''draw_screen''"]
  have same: "sy_thread (launched th u) = th" by (simp add: launched_def)
  from quit [unfolded same]
  obtain u' w4 where q: "run_until ?k se screen_left ''draw_screen'' quit_at_once (launched th u) w3
      = (Ret ((launched th u)\<lparr>sy_thread := told_to_stop th, sy_ui := u', sy_ui_pc := Left\<rparr>), w4)" (is "_ = (Ret ?s, _)")
    and row: "ui_highlighted_row u' = ui_highlighted_row (sy_ui (launched th u))" by auto
  let ?th = "(told_to_stop th)\<lparr>th_exit := True\<rparr>"
  let ?w5 = "w4\<lparr>trace := trace w4 @ [Curses Endwin, Mutex_lock, Mutex_unlock]\<rparr>"
  have "ready th u" using t th u(4) by (auto simp: ready_def fresh_def rows_ok_def shows_process_def list_all_iff)
  then have ok: "sys_ok t {} (launched th u)" using launched_ok [of th u] th(2) by simp
  have tab: "th_table ?th = map (\<lambda>ps. fiveman_process_state_desires_intent ps INTENT_STOP) t"
    using th(2) by (simp add: told_to_stop_def fiveman_process_state_table_desires_intent_def)
  have "table_ok t {} (th_table ?th)" unfolding tab
    using ok th(2) by (intro table_ok_map)
      (simp_all add: sys_ok_def launched_def fiveman_process_state_desires_intent_def same_entry_def)
  then have ok: "sys_ok t {} (?s\<lparr>sy_thread := ?th\<rparr>)"
    using ok row by (simp add: sys_ok_def launched_def told_to_stop_def)
  have st: "stopping (?s\<lparr>sy_thread := ?th\<rparr>)"
    using tab by (simp add: stopping_def launched_def resigned_def list_all_iff fiveman_process_state_desires_intent_def)
  have tame: "tame ?k" by (rule quiet_tame)
  obtain s' w6 where r: "run_thread ?k (3 * length t + 6) (?s\<lparr>sy_thread := ?th\<rparr>) ?w5 = (Ret s', w6)"
    using run_thread_returns [OF tame st ok] by blast
  have "sy_pc s' = Finished"
    by (rule run_thread_ends [OF r]) (use tab rank_bound in simp_all)
  from run_until_thread [OF r this, of se "''pthread_join''"] show ?thesis
    using th(1) w2(1) u(1) q
    by (simp add: run_session_def n fin io_run fiveman_status_thread_destroy_def with_lock_def teardown_screen_def sys_run)
qed

section \<open>Properties\<close>

text \<open>C4: The program signals nobody but its own processes. In every run of \<open>main\<close>, for every schedule of the
  threads and the signals and whatever the outcome, also when it aborts or never returns, each \<open>kill\<close> and
  \<open>killpg\<close> names a positive pid that is the pager helper's or was returned by an earlier \<open>posix_spawn\<close>.\<close>

theorem main_signals_only_own_processes:
  "\<exists>es. trace (snd (main k ivc w)) = trace w @ es \<and> own_targets {pid. Fork pid \<in> set es} es"
proof -
  define rest where "rest fork = io_bind (start_up k ivc) (\<lambda>(directory, procfile, port).
     io_bind (io_res (parse_procfile (inv_file ivc procfile))) (\<lambda>(instructions, num_instructions, heap).
     io_bind (io_res (fiveman_process_state_table_allocate heap instructions port)) (\<lambda>pstate.
     io_bind (fiveman_process_state_table_initialize k pstate) (\<lambda>pstate.
     io_then fiveman_process_state_table_mark_as_application_table (
     io_bind (run_session k \<lparr> se_procfile = procfile, se_directory = directory, se_total_states = num_instructions,
         se_fork = fork \<rparr> (inv_schedule ivc) (inv_final ivc) pstate) (\<lambda>s.
     io_bind (fiveman_process_state_table_deallocate k (sy_table s)) (\<lambda>emptied.
     io_then (io_res (fiveman_instruction_deallocate heap instructions)) (
     io_then (fiveman_pager_fork_destroy k fork) (
     io_return (0 :: int))))))))))" for fork
  have modest: "modest {pf_pid fork} (rest fork)" for fork
    unfolding rest_def io_then_def case_prod_beta'
    by (rule modest_bind [OF modest_quiet [OF start_up_quiet]], rule modest_bind [OF res_modest(1)],
        rule modest_bind [OF res_modest(1)], rule modest_bind [OF initialize_modest], rule modest_bind)
      (auto intro!: modest_bind deallocate_modest res_modest destroy_modest intro: session_modest)
  have main: "main k ivc = io_bind (fiveman_pager_fork_create k (k_fuel k)) rest"
    by (simp add: main_def rest_def [abs_def])
  obtain r1 w1 where c: "fiveman_pager_fork_create k (k_fuel k) w = (r1, w1)" by fastforce
  then obtain es1 where es1: "trace w1 = trace w @ es1" "list_all quiet_call es1"
    using emitsD [OF create_pager_quiet] by blast
  show ?thesis
  proof (cases r1)
    case (Ret fork)
    obtain r w' where m: "rest fork w1 = (r, w')" by fastforce
    from modestD [OF modest this] obtain es where es: "trace w' = trace w1 @ es" "own_targets {pf_pid fork} es" by blast
    obtain files confirms where "trace w1 = trace w @ [Pipe files, Pipe confirms, Fork (pf_pid fork), Close (fst files), Close (snd confirms)]"
      by (rule pager_created [OF c [unfolded Ret]])
    with es1(1) have pid: "Fork (pf_pid fork) \<in> set es1" by auto
    have "own_targets ({pid. Fork pid \<in> set (es1 @ es)} \<union> spawned es1) es"
      by (rule own_targets_mono [OF es(2)]) (use pid in auto)
    with es1 es(1) quiet_events [OF es1(2)] c Ret m show ?thesis
      unfolding main by (intro exI [of _ "es1 @ es"]) (simp add: io_run own_targets_append)
  next
    case (Fault e)
    with c es1 quiet_events [OF es1(2)] show ?thesis unfolding main by (auto simp: io_run)
  qed
qed

text \<open>C3: A run that comes to its end cleans up. Whenever \<open>main\<close> returns, for every schedule, it returns 0;
  it has had \<open>mktemp\<close> name two output files for every process of the Procfile and has unlinked each of these names once, in the
  order of the table; and, if the pager helper was forked, the last thing it did was to end the helper and to close
  its side of the two pipes.\<close>

theorem main_cleans_up:
  assumes "main k ivc w = (Ret status, w')"
  shows "status = 0 \<and> files_removed (new_events w w') = map Some (files_made (new_events w w'))
    \<and> (\<exists>procfile head found h. parse_procfile (inv_file ivc procfile) = Ret (head, found, h)
         \<and> length (files_made (new_events w w')) = 2 * found)
    \<and> (\<exists>files confirms pid es b. new_events w w' = [Pipe files, Pipe confirms, Fork pid] @ es
         \<and> (0 < pid \<longrightarrow> suffix [Kill pid SIGTERM b, Close (snd files), Close (fst confirms)] es))"
proof -
  obtain files confirms pid b procfile head found h es where e: "status = 0"
    "parse_procfile (inv_file ivc procfile) = Ret (head, found, h)" and
    new: "new_events w w' = [Pipe files, Pipe confirms, Fork pid] @ es
       @ (if 0 < pid then [Kill pid SIGTERM b, Close (snd files), Close (fst confirms)] else [])" (is "_ = _ @ es @ ?farewell") and
    files: "files_removed es = map Some (files_made es)" "length (files_made es) = 2 * found"
    by (rule main_events [OF assms])
  have none: "files_made [Pipe files, Pipe confirms, Fork pid] = []" "files_removed [Pipe files, Pipe confirms, Fork pid] = []"
    "files_made ?farewell = []" "files_removed ?farewell = []"
    using files_kept [of "[Pipe files, Pipe confirms, Fork pid]"] files_kept [of ?farewell] by (simp_all add: keeps_files_def)
  have "files_made (new_events w w') = files_made es" "files_removed (new_events w w') = files_removed es"
    unfolding new by (simp_all only: files_simps none append_Nil append_Nil2)
  moreover have "0 < pid \<longrightarrow> suffix [Kill pid SIGTERM b, Close (snd files), Close (fst confirms)] (es @ ?farewell)"
    by (simp add: suffix_def)
  ultimately show ?thesis using e files new by auto
qed

text \<open>C24: Zombies are reaped until the end. Whenever \<open>main\<close> returns, the global \<open>application_state_table\<close> still points to the
  table and the SIGCHLD handler is still installed, so that a SIGCHLD is answered by reaping every entry of the table; and no
  session, in any schedule and with any outcome, and no step of a thread or a handler changes that pointer or a signal action.\<close>

theorem main_reaps_until_the_end:
  assumes "main k ivc w = (Ret status, w')"
  shows "application_state_table w' = Live_table \<and> sa_handler (dispositions w' SIGCHLD) = Handle_sigchld
    \<and> (\<forall>k' table. handle_sigchld k' table w' = walk (fiveman_process_state_reap_zombie_processes k') table w')
    \<and> (\<forall>k' se schedule final t v r v'. run_session k' se schedule final t v = (r, v') \<longrightarrow>
         application_state_table v' = application_state_table v \<and> dispositions v' = dispositions v)
    \<and> (\<forall>k' se a s v r v'. system_step k' se a s v = (r, v') \<longrightarrow>
         application_state_table v' = application_state_table v \<and> dispositions v' = dispositions v)"
proof -
  obtain fork w1 d f port w2 head found h t t' w3 s w4 emptied w5 u where
    up: "start_up k ivc w1 = (Ret (d, f, port), w2)" and
    init: "fiveman_process_state_table_initialize k t w2 = (Ret t', w3)" and
    ses: "run_session k \<lparr> se_procfile = f, se_directory = d, se_total_states = found, se_fork = fork \<rparr>
      (inv_schedule ivc) (inv_final ivc) t' (w3\<lparr>application_state_table := Live_table\<rparr>) = (Ret s, w4)" and
    dea: "fiveman_process_state_table_deallocate k (sy_table s) w4 = (Ret emptied, w5)" and
    des: "fiveman_pager_fork_destroy k fork w5 = (Ret u, w')"
    using assms by (rule main_Ret)
  have "application_state_table w4 = Live_table" using keepsD [OF registration.keeps_session ses] by simp
  moreover have "application_state_table w' = application_state_table w4"
    using keepsD [OF outer_dispositions(3) dea] keepsD [OF outer_dispositions(5) des] by simp
  moreover have "sa_handler (dispositions w3 SIGCHLD) = Handle_sigchld"
    using start_up_handlers [OF up] keepsD [OF outer_dispositions(1) init] by simp
  moreover have "dispositions w4 = dispositions w3" "dispositions w' = dispositions w4"
    using keepsD [OF handlers.keeps_session ses] keepsD [OF outer_dispositions(2) dea] keepsD [OF outer_dispositions(4) des]
    by simp_all
  ultimately have kept: "application_state_table w' = Live_table" "sa_handler (dispositions w' SIGCHLD) = Handle_sigchld"
    by simp_all
  have reap: "handle_sigchld k' t w' = walk (fiveman_process_state_reap_zombie_processes k') t w'" for k' t
    using kept(1) by (simp add: handle_sigchld_def io_run fiveman_process_state_table_reap_zombie_processes_def)
  show ?thesis
    by (intro conjI allI impI, rule kept(1), rule kept(2), rule reap, erule keepsD [OF registration.keeps_session],
        erule keepsD [OF handlers.keeps_session], erule keepsD [OF registration.keeps_system_step],
        erule keepsD [OF handlers.keeps_system_step])
qed

text \<open>C26: An unknown command aborts and leaves the helper behind. When the handlers can be installed and the word given
  for the command is no prefix of \<open>start\<close>, \<open>main\<close> aborts on \<open>assert(cmd != NULL)\<close>; the pager helper has
  been forked before, and nothing of the run sends it a signal.\<close>

theorem main_unknown_command_aborts:
  assumes "willing k" "options_of k ivc = Ret (directory, procfile, port, None, index)"
  shows "\<exists>w' pid. main k ivc w = (Fault (AssertFailed ''cmd != NULL''), w') \<and> Fork pid \<in> set (new_events w w')
    \<and> (\<forall>p s b. Kill p s b \<notin> set (new_events w w'))"
proof -
  obtain fork w1 where c: "fiveman_pager_fork_create k (k_fuel k) w = (Ret fork, w1)" using willing_create [OF assms(1)] by blast
  obtain w2 where up: "start_up k ivc w1 = (Fault (AssertFailed ''cmd != NULL''), w2)"
    using start_up_run(1) [OF assms refl] by blast
  have run: "main k ivc w = (Fault (AssertFailed ''cmd != NULL''), w2)" using c up by (simp add: main_def io_run)
  obtain files confirms where es1: "trace w1 = trace w @ [Pipe files, Pipe confirms, Fork (pf_pid fork), Close (fst files), Close (snd confirms)]"
    by (rule pager_created [OF c])
  obtain es2 where es2: "trace w2 = trace w1 @ es2" "list_all quiet_call es2" using emitsD [OF start_up_quiet up] by blast
  then have "Kill p s b \<notin> set es2" for p s b by (auto simp: list_all_iff quiet_call_def)
  with run es1 es2(1) show ?thesis by (intro exI [of _ w2] exI [of _ "pf_pid fork"]) (simp add: new_events_def)
qed


text \<open>Runs on the concrete operating system.\<close>

definition example_invocation :: "string list \<Rightarrow> string \<Rightarrow> invocation" where
  "example_invocation argv text = \<lparr> inv_argv = argv, inv_opts = [], inv_optind = 1, inv_getwd = Some ''/'', inv_errno = 0,
     inv_file = (\<lambda>_. Some text), inv_schedule = quit_at_once, inv_final = replicate 9 Status_thread \<rparr>"

lemma quiet_willing: "willing quiet_kernel"
  by (simp add: willing_def quiet_kernel_def)

lemma example_options:
  "options_of quiet_kernel (example_invocation [''fiveman''] text) = Ret (''/'', ''/Procfile'', 5000, Some ''start'', 1)"
  "options_of quiet_kernel (example_invocation [''fiveman'', ''halt''] text) = Ret (''/'', ''/Procfile'', 5000, None, 2)"
  by (simp_all add: options_of_def example_invocation_def parse_options_def default_directory_def default_procfile_eq
      select_command_iff DEFAULT_COMMAND_def chosen_port_def quiet_kernel_def default_port_def)

theorem main_unknown_command_aborts_witness:
  "\<exists>w'. main quiet_kernel (example_invocation [''fiveman'', ''halt''] []) start_world = (Fault (AssertFailed ''cmd != NULL''), w')"
  using main_unknown_command_aborts [OF quiet_willing example_options(2), of "[]" start_world] by blast


lemma example_returns:
  "\<exists>w'. main quiet_kernel (example_invocation [''fiveman''] (print_procfile [(''web'', ''x'')])) start_world = (Ret 0, w')"
proof -
  let ?ivc = "example_invocation [''fiveman''] (print_procfile [(''web'', ''x'')])"
  let ?h = "[Some \<lparr> instr_name = Some ''web'', instr_exec = Some ''x'', instr_next = None \<rparr>]"
  obtain fork w1 where c: "fiveman_pager_fork_create quiet_kernel (k_fuel quiet_kernel) start_world = (Ret fork, w1)"
    using willing_create [OF quiet_willing] by blast
  have "k_access quiet_kernel h f" for h f by (simp add: quiet_kernel_def)
  then obtain w2 where up: "start_up quiet_kernel ?ivc w1 = (Ret (''/'', ''/Procfile'', 5000), w2)"
    using start_up_run(2) [OF quiet_willing example_options(1)] by blast
  have parse: "parse_procfile (inv_file ?ivc ''/Procfile'') = Ret (Some 0, 1, ?h)"
    unfolding example_invocation_def print_procfile_def
    by (simp, subst parse_procfile_small)
      (simp_all add: line_size_def tokens.simps other_delim_def token_text_def is_blank_def cstr_def cells_of_def cell_at_def)
  have alloc: "fiveman_process_state_table_allocate ?h (Some 0) 5000 = Ret [fiveman_process_state_allocate (the (?h ! 0)) 5000]"
    by (simp add: fiveman_process_state_table_allocate_def load_instr_def)
  obtain ps w3 where init: "fiveman_process_state_table_initialize quiet_kernel [fiveman_process_state_allocate (the (?h ! 0)) 5000] w2
      = (Ret [ps], w3)" "fresh [ps]"
    by (simp add: fiveman_process_state_table_initialize_def fiveman_process_state_initialize_def output_path_def
        fiveman_process_state_clear_sample_def fiveman_process_state_allocate_def fresh_def Let_def io_simps)
  obtain s w4 where ses: "run_session quiet_kernel \<lparr> se_procfile = ''/Procfile'', se_directory = ''/'', se_total_states = 1, se_fork = fork \<rparr>
      (inv_schedule ?ivc) (inv_final ?ivc) [ps] (w3\<lparr>application_state_table := Live_table\<rparr>) = (Ret s, w4)"
    using quiet_session [OF init(2), of "\<lparr> se_procfile = ''/Procfile'', se_directory = ''/'', se_total_states = 1, se_fork = fork \<rparr>"
        "inv_final ?ivc" "w3\<lparr>application_state_table := Live_table\<rparr>"] by (auto simp: example_invocation_def)
  obtain emptied w5 where "fiveman_process_state_table_deallocate quiet_kernel (sy_table s) w4 = (Ret emptied, w5)"
    using table_deallocated by blast
  moreover have "\<exists>w6. fiveman_pager_fork_destroy quiet_kernel fork w5 = (Ret (), w6)"
    by (simp add: fiveman_pager_fork_destroy_def io_simps)
  moreover have "fiveman_instruction_deallocate ?h (Some 0) = Ret [None]" by (simp add: load_instr_def)
  ultimately show ?thesis using c up parse alloc init(1) ses by (auto simp: main_def io_run mark_run)
qed

theorem main_cleans_up_witness:
  "\<exists>w'. main quiet_kernel (example_invocation [''fiveman''] (print_procfile [(''web'', ''x'')])) start_world = (Ret 0, w')
     \<and> files_removed (new_events start_world w') = map Some (files_made (new_events start_world w'))"
  using example_returns main_cleans_up by blast

theorem main_reaps_until_the_end_witness:
  "\<exists>w'. main quiet_kernel (example_invocation [''fiveman''] (print_procfile [(''web'', ''x'')])) start_world = (Ret 0, w')
     \<and> application_state_table w' = Live_table"
  using example_returns main_reaps_until_the_end by blast

end
