(* ===== verification/Spec2Isabelle.thy ===== *)
theory Spec2Isabelle
  imports Fiveman_Main
begin

text \<open>
  A model of fiveman, a supervisor for the processes of a Procfile with a curses screen (Mac OS), and
  its verification. All C files under \<open>src/\<close> are modelled.

  \<^bold>\<open>The program.\<close> \<open>main\<close> (\<open>main.c\<close>) forks the pager helper (\<open>fiveman_pager_fork.c\<close>), installs the signal
  handlers (\<open>signal_handlers.c\<close>), reads the options (\<open>options.c\<close>) and parses the Procfile (\<open>procfile.c\<close>) into a
  list of instructions (\<open>fiveman_instruction.c\<close>). From it comes the table of process states
  (\<open>fiveman_process_state_table.c\<close>, \<open>fiveman_process_state.c\<close>), which two threads share: the status thread
  (\<open>fiveman_status_thread.c\<close>) reflects the user's wishes into intents, converges every process to its intent,
  samples it (\<open>fiveman_process_statistics_mac.c\<close>) and publishes the rows of the screen; the screen
  (\<open>ncurses_screen.c\<close>) draws them, turns keys into wishes and drives the shutdown. SIGINT asks for the
  shutdown, SIGCHLD reaps. After the screen loop the thread is joined, output files are removed and the
  helper is ended.

  \<^bold>\<open>How C is modelled.\<close> Structs are records, enums are datatypes, unsigned 32-bit and 64-bit integers are words, \<open>int\<close>
  is a mathematical integer with \<open>int32\<close> where the code can overflow or convert. A linked list of states is a list, the instruction
  list is a store of cells (\<open>instr_heap\<close>) because it is built by writes through \<open>next\<close>. A function that
  calls the system or can abort is a computation of type \<open>'a eff\<close>: it gets and returns the \<open>world\<close> (the globals and
  the trace of all calls) and gives a value or a \<open>fault\<close>: a failed assertion, an exit, an access out of
  bounds or through a bad pointer, or a loop that is not left. The operating system, libdtrace, the Mach and Security
  frameworks and curses are the parameter \<open>kernel\<close>: the answer to a call is any function of the calls made
  before, and nothing is assumed of it except where a theorem says so.

  \<^bold>\<open>Theories\<close>, in the order of their imports:
  \<^item> \<open>Fiveman_Prelude\<close>: C integers and strings, \<open>atoi\<close> and \<open>%i\<close>, the effect monad, the walk over a table.
  \<^item> \<open>Fiveman_Types\<close>: \<open>fiveman_types.h\<close> and the private structs of the sampler.
  \<^item> \<open>Fiveman_Kernel\<close>: calls, their trace, the record \<open>kernel\<close>, and two judgements with syntax-directed rules:
    \<open>emits P m\<close> (every call of \<open>m\<close> satisfies \<open>P\<close>) and \<open>keeps f m\<close> (\<open>m\<close> leaves the global \<open>f\<close> alone).
  \<^item> \<open>Fiveman_Instruction\<close>, \<open>Fiveman_Procfile\<close>: \<open>fiveman_instruction.c\<close> and \<open>procfile.c\<close>. The scanner with its reads
    of 8192 bytes refines a specification that cuts the whole text into tokens; round trip, freeing,
    and the files on which it fails.
  \<^item> \<open>Fiveman_Options\<close>: \<open>options.c\<close>.
  \<^item> \<open>Fiveman_Double\<close>: IEEE doubles by rounding and the formats \<open>%.2f\<close> and \<open>%g\<close>; \<open>Fiveman_Measure\<close>: the byte
    measurements of \<open>ncurses_screen.c\<close>, with their buffers and the accuracy of what is shown.
  \<^item> \<open>Fiveman_Statistics\<close>: \<open>fiveman_process_statistics_mac.c\<close>; its interface is the locale \<open>sampling_backend\<close>.
  \<^item> \<open>Fiveman_Terminal\<close>: modes, columns and headers; \<open>Fiveman_Screen\<close>: rows, keys, frames, the shutdown
    state machine and the loop of \<open>draw_screen\<close>.
  \<^item> \<open>Fiveman_Pager\<close>: both sides of the helper's protocol.
  \<^item> \<open>Fiveman_Process_State\<close>: \<open>fiveman_process_state.c\<close>; converging refines the abstract choice of an \<open>action\<close>.
    \<open>Fiveman_State_Table\<close> lifts it to the table with the locale \<open>table_operation\<close>.
  \<^item> \<open>Fiveman_Signals\<close>: \<open>signal_handlers.c\<close>.
  \<^item> \<open>Fiveman_Status_Thread\<close>: the thread's cycle as one function, its creation and its end; the locale
    \<open>accounted_operation\<close> says which calls a walk over the table makes for each entry.
  \<^item> \<open>Fiveman_System\<close>: both threads and the signals as a step relation; alone, the thread's steps are its cycle.
  \<^item> \<open>Fiveman_Interleaving\<close>: invariants of every interleaving. The locale \<open>call_filter\<close> says once for
    every step which calls it makes; its interpretations say whom the system signals (\<open>own\<close>), when it launches
    (\<open>launching\<close>) and that it names and unlinks no file (\<open>filing\<close>).
  \<^item> \<open>Fiveman_Globals\<close>: globals that no step changes (locale \<open>system_variable\<close>, an extension of the locales of
    \<open>Fiveman_Kernel\<close> and \<open>Fiveman_Screen\<close>).
  \<^item> \<open>Fiveman_Shutdown\<close>: the loop of the screen ends, and what it can leave behind.
  \<^item> \<open>Fiveman_Main\<close>: \<open>main.c\<close>; properties of whole runs.

  \<^bold>\<open>What the properties show.\<close> Whole program: signals go only to fiveman's own processes; a run that
  returns has unlinked every name \<open>mktemp\<close> gave it and ended the helper; the table stays registered and the SIGCHLD
  handler installed until the end, so zombies are reaped throughout; an unterminated Procfile overruns an array. Running
  system: the invariant of table, rows and selection; all calls of a cycle of the status thread, entry by entry; nothing is
  launched after the wish to stop has been reflected; the thread ends within \<open>3 n + 6\<close> steps; the loop of the screen ends
  once 100 seconds have passed, and is left only after a last probe of every process; a process launched in between is left
  behind. Components: refinement, round trip, the whole request to \<open>posix_spawn\<close>, sampling totals and rates, the texts of a
  row and where they are put, text bounds, the pager protocol with the path it hands over, option parsing, and the faults of each.
  Where a property says which calls an operation makes, it gives the whole trace of the run, so that a call left out, added or
  exchanged makes it false.

  \<^bold>\<open>Bounds.\<close> Loops that end by the data recurse on it. \<open>allocate_from\<close> has one round for each cell of the store and one
  more, which is enough for every list that ends (\<open>allocate_from_chain\<close>). Loops that end only when the system answers
  in some way (\<open>waitpid\<close>, the confirmation of the pager, the status thread as one function, the loop of \<open>draw_screen\<close> as one
  function) have \<open>k_fuel\<close> rounds and otherwise give \<open>NeverReturns\<close>; the parameter is arbitrary. The schedules of \<open>main\<close> are lists of
  actors; one that stops before the loop is left or the thread has ended gives \<open>NeverReturns\<close> too.

  \<^bold>\<open>Not modelled\<close>, and why. The text of the embedded DTrace program and the internals of curses are
  data or code outside C. A step is atomic: interleavings inside \<open>fiveman_process_state_converge\<close>, inside
  the drawing of a frame or inside paging are not distinguished, and the status thread takes its first step
  when \<open>draw_screen\<close> has reached its loop. Freeing is modelled for the instruction list, which is walked while it is freed;
  the states of the table are never freed by the code, and other calls of \<open>free\<close> are no event. \<open>mktemp\<close> makes a name and no file;
  the file is made by the launch. The parser's total of bytes read is unbounded here and an \<open>int\<close> in C: they differ for a
  Procfile of 2 GB or more. The copy of the rows to the local
  \<open>prev_draw_entries\<close> has no reader. Allocation does not fail. Prototypes and the empty header
  \<open>fiveman_process_intent.h\<close> have no content of their own.
\<close>

end
